theory Spec2Isabelle
  imports Complex_Main "HOL-Library.Word"
begin

unbundle bit_operations_syntax

section \<open>The float64 values of the program\<close>

text \<open>
  Both fields of \<open>Complex\<close> are \<open>float64\<close> values in Go and \<open>Double\<close> values in Swift:
  IEEE 754 binary64. \<open>Finite s m e\<close> is the number \<open>(-1)^s * m * 2^e\<close>; the values of
  the format (\<open>wf_float64\<close>) have \<open>m < 2^53\<close> and \<open>-1074 \<le> e \<le> 971\<close>, and \<open>e = -1074\<close>
  whenever \<open>m < 2^52\<close> (zero and the subnormal numbers), so that every number of the
  format is written in one way. All NaN bit patterns are one value \<open>NaN\<close>. Every
  operator of the source rounds its own result, to nearest, ties to even.
\<close>

datatype float64 = Finite bool nat int | Infinity bool | NaN

definition wf_float64 :: "float64 \<Rightarrow> bool" where
  "wf_float64 x =
     (case x of
        Finite s m e \<Rightarrow>
          (m < 2 ^ 52 \<and> e = - 1074) \<or> (2 ^ 52 \<le> m \<and> m < 2 ^ 53 \<and> - 1074 \<le> e \<and> e \<le> 971)
      | Infinity s \<Rightarrow> True
      | NaN \<Rightarrow> True)"

definition is_finite :: "float64 \<Rightarrow> bool" where
  "is_finite x = (case x of Finite s m e \<Rightarrow> True | Infinity s \<Rightarrow> False | NaN \<Rightarrow> False)"

fun bitlen :: "nat \<Rightarrow> nat" where
  "bitlen n = (if n = 0 then 0 else Suc (bitlen (n div 2)))"

declare bitlen.simps [simp del]

text \<open>
  \<open>magnitude_below K x\<close>: \<open>x\<close> is a finite float64 value with \<open>|x| < 2^K\<close>.
\<close>

definition magnitude_below :: "int \<Rightarrow> float64 \<Rightarrow> bool" where
  "magnitude_below K x =
     (case x of
        Finite s m e \<Rightarrow> wf_float64 x \<and> e + int (bitlen m) \<le> K
      | Infinity s \<Rightarrow> False
      | NaN \<Rightarrow> False)"

definition pack_exp :: "bool \<Rightarrow> nat \<Rightarrow> int \<Rightarrow> float64" where
  "pack_exp s m e = (if 971 < e then Infinity s else Finite s m e)"

definition pack :: "bool \<Rightarrow> nat \<Rightarrow> int \<Rightarrow> float64" where
  "pack s m e = (if m = 2 ^ 53 then pack_exp s (2 ^ 52) (e + 1) else pack_exp s m e)"

text \<open>
  \<open>round_float s M E\<close> is the float64 nearest to the exact number \<open>(-1)^s * M * 2^E\<close>,
  for any natural \<open>M\<close> and integer \<open>E\<close>: the value is brought to the exponent \<open>e1\<close> of
  its 53-bit form (never below \<open>-1074\<close>); when that drops \<open>d\<close> bits, the quotient \<open>q\<close>
  is rounded by the remainder \<open>r\<close> against the half \<open>h\<close>, ties to the even neighbour;
  a result beyond the largest exponent is an infinity.
\<close>

definition round_even :: "nat \<Rightarrow> nat \<Rightarrow> nat \<Rightarrow> nat" where
  "round_even q r h = (if h < r \<or> (r = h \<and> odd q) then q + 1 else q)"

definition round_shift :: "bool \<Rightarrow> nat \<Rightarrow> nat \<Rightarrow> int \<Rightarrow> float64" where
  "round_shift s M d e1 = pack s (round_even (M div 2 ^ d) (M mod 2 ^ d) (2 ^ (d - 1))) e1"

definition round_at :: "bool \<Rightarrow> nat \<Rightarrow> int \<Rightarrow> int \<Rightarrow> float64" where
  "round_at s M E e1 =
     (if e1 \<le> E then pack s (M * 2 ^ nat (E - e1)) e1 else round_shift s M (nat (e1 - E)) e1)"

definition round_float :: "bool \<Rightarrow> nat \<Rightarrow> int \<Rightarrow> float64" where
  "round_float s M E =
     (if M = 0 then Finite s 0 (- 1074)
      else round_at s M E (max (E + int (bitlen M) - 53) (- 1074)))"

definition fneg :: "float64 \<Rightarrow> float64" where
  "fneg x = (case x of Finite s m e \<Rightarrow> Finite (\<not> s) m e | Infinity s \<Rightarrow> Infinity (\<not> s) | NaN \<Rightarrow> NaN)"

definition signed_value :: "bool \<Rightarrow> nat \<Rightarrow> int" where
  "signed_value s m = (if s then - int m else int m)"

text \<open>
  The sum of two finite values is exact as the integer \<open>v\<close> at the smaller exponent
  \<open>e\<close>; a sum that is exactly zero is \<open>-0\<close> only when both operands are negative.
\<close>

definition round_sum :: "bool \<Rightarrow> int \<Rightarrow> int \<Rightarrow> float64" where
  "round_sum sz e v = (if v = 0 then Finite sz 0 (- 1074) else round_float (v < 0) (nat \<bar>v\<bar>) e)"

fun fadd :: "float64 \<Rightarrow> float64 \<Rightarrow> float64" where
  "fadd NaN y = NaN"
| "fadd x NaN = NaN"
| "fadd (Infinity s1) (Infinity s2) = (if s1 = s2 then Infinity s1 else NaN)"
| "fadd (Infinity s1) (Finite s2 m2 e2) = Infinity s1"
| "fadd (Finite s1 m1 e1) (Infinity s2) = Infinity s2"
| "fadd (Finite s1 m1 e1) (Finite s2 m2 e2) =
     round_sum (s1 \<and> s2) (min e1 e2)
       (signed_value s1 m1 * 2 ^ nat (e1 - min e1 e2) + signed_value s2 m2 * 2 ^ nat (e2 - min e1 e2))"

declare fadd.simps [simp del]

definition fsub :: "float64 \<Rightarrow> float64 \<Rightarrow> float64" where
  "fsub x y = fadd x (fneg y)"

fun fmul :: "float64 \<Rightarrow> float64 \<Rightarrow> float64" where
  "fmul NaN y = NaN"
| "fmul x NaN = NaN"
| "fmul (Infinity s1) (Infinity s2) = Infinity (s1 \<noteq> s2)"
| "fmul (Infinity s1) (Finite s2 m2 e2) = (if m2 = 0 then NaN else Infinity (s1 \<noteq> s2))"
| "fmul (Finite s1 m1 e1) (Infinity s2) = (if m1 = 0 then NaN else Infinity (s1 \<noteq> s2))"
| "fmul (Finite s1 m1 e1) (Finite s2 m2 e2) = round_float (s1 \<noteq> s2) (m1 * m2) (e1 + e2)"

declare fmul.simps [simp del]

text \<open>
  Division and square root round a quotient (a root) computed with more than 60 bits,
  followed by one more bit that is set when the remainder is not zero, so that
  \<open>round_float\<close> sees on which side of a rounding boundary the exact result lies.
\<close>

definition sticky :: "nat \<Rightarrow> bool \<Rightarrow> nat" where
  "sticky q exact = 2 * q + (if exact then 0 else 1)"

fun fdiv :: "float64 \<Rightarrow> float64 \<Rightarrow> float64" where
  "fdiv NaN y = NaN"
| "fdiv x NaN = NaN"
| "fdiv (Infinity s1) (Infinity s2) = NaN"
| "fdiv (Infinity s1) (Finite s2 m2 e2) = Infinity (s1 \<noteq> s2)"
| "fdiv (Finite s1 m1 e1) (Infinity s2) = Finite (s1 \<noteq> s2) 0 (- 1074)"
| "fdiv (Finite s1 m1 e1) (Finite s2 m2 e2) =
     (if m2 = 0 then (if m1 = 0 then NaN else Infinity (s1 \<noteq> s2))
      else round_float (s1 \<noteq> s2)
             (sticky ((m1 * 2 ^ 116) div m2) ((m1 * 2 ^ 116) mod m2 = 0)) (e1 - e2 - 117))"

declare fdiv.simps [simp del]

definition isqrt_step :: "nat \<Rightarrow> nat \<Rightarrow> nat" where
  "isqrt_step n r = (if (r + 1) * (r + 1) \<le> n then r + 1 else r)"

function isqrt :: "nat \<Rightarrow> nat" where
  "isqrt n = (if n < 2 then n else isqrt_step n (2 * isqrt (n div 4)))"
  by pat_completeness auto
termination
  by (relation "measure (\<lambda>n. n)") auto

declare isqrt.simps [simp del]

text \<open>\<open>math.Sqrt\<close> (Swift: \<open>squareRoot()\<close>), the correctly rounded square root.\<close>

definition root_sticky :: "nat \<Rightarrow> nat \<Rightarrow> nat" where
  "root_sticky M t = sticky t (t * t = M)"

definition sqrt_exp :: "int \<Rightarrow> int" where
  "sqrt_exp e = (if even e then e - 120 else e - 121)"

fun Sqrt :: "float64 \<Rightarrow> float64" where
  "Sqrt NaN = NaN"
| "Sqrt (Infinity s) = (if s then NaN else Infinity False)"
| "Sqrt (Finite s m e) =
     (if m = 0 then Finite s 0 (- 1074)
      else if s then NaN
      else round_float False
             (root_sticky (m * 2 ^ nat (e - sqrt_exp e)) (isqrt (m * 2 ^ nat (e - sqrt_exp e))))
             (sqrt_exp e div 2 - 1))"

declare Sqrt.simps [simp del]

text \<open>The conversion \<open>float64(n)\<close> of a non-negative \<open>int\<close>.\<close>

definition float64_of_nat :: "nat \<Rightarrow> float64" where
  "float64_of_nat n = round_float False n 0"

text \<open>The literals \<open>0\<close> and \<open>1\<close> (\<open>1.0\<close>), and the constant \<open>-2 * math.Pi\<close> as a float64.\<close>

definition f_zero :: float64 where
  "f_zero = Finite False 0 (- 1074)"

definition f_one :: float64 where
  "f_one = Finite False (2 ^ 52) (- 52)"

definition neg_two_pi :: float64 where
  "neg_two_pi = Finite True 7074237752028440 (- 50)"

text \<open>
  \<open>math.Round\<close>: the nearest integer, halves away from zero; zeros, infinities and NaN
  are returned as they are.
\<close>

definition round_half_away :: "nat \<Rightarrow> nat \<Rightarrow> nat \<Rightarrow> nat" where
  "round_half_away q r p = (if p \<le> 2 * r then q + 1 else q)"

fun Round :: "float64 \<Rightarrow> float64" where
  "Round NaN = NaN"
| "Round (Infinity s) = Infinity s"
| "Round (Finite s m e) =
     (if 0 \<le> e then Finite s m e
      else round_float s
             (round_half_away (m div 2 ^ nat (- e)) (m mod 2 ^ nat (- e)) (2 ^ nat (- e))) 0)"

declare Round.simps [simp del]

text \<open>The literals \<open>0.5\<close>, \<open>10.0\<close>, \<open>25.0\<close>, \<open>100.0\<close>, \<open>-2.0\<close> and the constant \<open>math.Pi\<close>.\<close>

definition f_half :: float64 where
  "f_half = Finite False (2 ^ 52) (- 53)"

definition f_ten :: float64 where
  "f_ten = float64_of_nat 10"

definition f_twenty_five :: float64 where
  "f_twenty_five = float64_of_nat 25"

definition f_hundred :: float64 where
  "f_hundred = float64_of_nat 100"

definition f_neg_two :: float64 where
  "f_neg_two = Finite True (2 ^ 52) (- 51)"

definition f_pi :: float64 where
  "f_pi = Finite False 7074237752028440 (- 51)"

text \<open>
  \<open>math.Cos\<close> and \<open>math.Sin\<close> (Swift: \<open>cos\<close> and \<open>sin\<close> of Foundation) belong to the
  platform's mathematical library, not to the repository, and IEEE 754 does not fix their
  results: the program is modelled for any such library.
\<close>

record mathlib =
  Cos :: "float64 \<Rightarrow> float64"
  Sin :: "float64 \<Rightarrow> float64"

text \<open>
  A library for the examples: the correctly rounded cosine and sine at the angles \<open>0\<close>,
  \<open>-\<pi>/2\<close> and \<open>-\<pi>\<close> (as float64 values), which is all the examples ask of it.
\<close>

definition example_lib :: mathlib where
  "example_lib =
     \<lparr>Cos = (\<lambda>x.
        if x = Finite False 0 (- 1074) then Finite False (2 ^ 52) (- 52)
        else if x = Finite True 7074237752028440 (- 52) then Finite False 4967757600021511 (- 106)
        else if x = Finite True 7074237752028440 (- 51) then Finite True (2 ^ 52) (- 52)
        else NaN),
      Sin = (\<lambda>x.
        if x = Finite False 0 (- 1074) then Finite False 0 (- 1074)
        else if x = Finite True 7074237752028440 (- 52) then Finite True (2 ^ 52) (- 52)
        else if x = Finite True 7074237752028440 (- 51) then Finite True 4967757600021511 (- 105)
        else NaN)\<rparr>"


text \<open>
  A library for an example of the size of the benchmark: the cosine and the sine of the C
  library of Linux at the angles \<open>-2\<pi>/2^k\<close>, \<open>k = 1, ..., 24\<close>, which are the angles that a
  transform of \<open>2^24\<close> elements asks for (the results of Go's \<open>math\<close> package are the same
  or differ in the last bits).
\<close>

definition bench_cos :: "(float64 \<times> float64) list" where
  "bench_cos =
     [(Finite True 7074237752028440 (- 51), Finite True 4503599627370496 (- 52)),
      (Finite True 7074237752028440 (- 52), Finite False 4967757600021511 (- 106)),
      (Finite True 7074237752028440 (- 53), Finite False 6369051672525773 (- 53)),
      (Finite True 7074237752028440 (- 54), Finite False 8321567036706118 (- 53)),
      (Finite True 7074237752028440 (- 55), Finite False 8834128446708912 (- 53)),
      (Finite True 7074237752028440 (- 56), Finite False 8963827128411430 (- 53)),
      (Finite True 7074237752028440 (- 57), Finite False 8996349688769918 (- 53)),
      (Finite True 7074237752028440 (- 58), Finite False 9004486454725901 (- 53)),
      (Finite True 7074237752028440 (- 59), Finite False 9006521029202651 (- 53)),
      (Finite True 7074237752028440 (- 60), Finite False 9007029696760466 (- 53)),
      (Finite True 7074237752028440 (- 61), Finite False 9007156865146114 (- 53)),
      (Finite True 7074237752028440 (- 62), Finite False 9007188657336038 (- 53)),
      (Finite True 7074237752028440 (- 63), Finite False 9007196605389364 (- 53)),
      (Finite True 7074237752028440 (- 64), Finite False 9007198592403061 (- 53)),
      (Finite True 7074237752028440 (- 65), Finite False 9007199089156508 (- 53)),
      (Finite True 7074237752028440 (- 66), Finite False 9007199213344871 (- 53)),
      (Finite True 7074237752028440 (- 67), Finite False 9007199244391962 (- 53)),
      (Finite True 7074237752028440 (- 68), Finite False 9007199252153734 (- 53)),
      (Finite True 7074237752028440 (- 69), Finite False 9007199254094178 (- 53)),
      (Finite True 7074237752028440 (- 70), Finite False 9007199254579288 (- 53)),
      (Finite True 7074237752028440 (- 71), Finite False 9007199254700566 (- 53)),
      (Finite True 7074237752028440 (- 72), Finite False 9007199254730886 (- 53)),
      (Finite True 7074237752028440 (- 73), Finite False 9007199254738465 (- 53)),
      (Finite True 7074237752028440 (- 74), Finite False 9007199254740360 (- 53))]"

definition bench_sin :: "(float64 \<times> float64) list" where
  "bench_sin =
     [(Finite True 7074237752028440 (- 51), Finite True 4967757600021511 (- 105)),
      (Finite True 7074237752028440 (- 52), Finite True 4503599627370496 (- 52)),
      (Finite True 7074237752028440 (- 53), Finite True 6369051672525772 (- 53)),
      (Finite True 7074237752028440 (- 54), Finite True 6893811853601123 (- 54)),
      (Finite True 7074237752028440 (- 55), Finite True 7028869612283402 (- 55)),
      (Finite True 7074237752028440 (- 56), Finite True 7062879306626092 (- 56)),
      (Finite True 7074237752028440 (- 57), Finite True 7071397114140692 (- 57)),
      (Finite True 7074237752028440 (- 58), Finite True 7073527528384126 (- 58)),
      (Finite True 7074237752028440 (- 59), Finite True 7074060192106372 (- 59)),
      (Finite True 7074237752028440 (- 60), Finite True 7074193361797233 (- 60)),
      (Finite True 7074237752028440 (- 61), Finite True 7074226654454970 (- 61)),
      (Finite True 7074237752028440 (- 62), Finite True 7074234977634093 (- 62)),
      (Finite True 7074237752028440 (- 63), Finite True 7074237058429792 (- 63)),
      (Finite True 7074237752028440 (- 64), Finite True 7074237578628774 (- 64)),
      (Finite True 7074237752028440 (- 65), Finite True 7074237708678523 (- 65)),
      (Finite True 7074237752028440 (- 66), Finite True 7074237741190961 (- 66)),
      (Finite True 7074237752028440 (- 67), Finite True 7074237749319070 (- 67)),
      (Finite True 7074237752028440 (- 68), Finite True 7074237751351098 (- 68)),
      (Finite True 7074237752028440 (- 69), Finite True 7074237751859104 (- 69)),
      (Finite True 7074237752028440 (- 70), Finite True 7074237751986106 (- 70)),
      (Finite True 7074237752028440 (- 71), Finite True 7074237752017857 (- 71)),
      (Finite True 7074237752028440 (- 72), Finite True 7074237752025794 (- 72)),
      (Finite True 7074237752028440 (- 73), Finite True 7074237752027779 (- 73)),
      (Finite True 7074237752028440 (- 74), Finite True 7074237752028275 (- 74))]"

definition bench_lib :: mathlib where
  "bench_lib =
     \<lparr>Cos = (\<lambda>x. case map_of bench_cos x of Some y \<Rightarrow> y | None \<Rightarrow> NaN),
      Sin = (\<lambda>x. case map_of bench_sin x of Some y \<Rightarrow> y | None \<Rightarrow> NaN)\<rparr>"

section \<open>complex.go\<close>

record Complex =
  Real :: float64
  Imag :: float64

definition Add :: "Complex \<Rightarrow> Complex \<Rightarrow> Complex" where
  "Add c other = \<lparr>Real = fadd (Real c) (Real other), Imag = fadd (Imag c) (Imag other)\<rparr>"

definition Sub :: "Complex \<Rightarrow> Complex \<Rightarrow> Complex" where
  "Sub c other = \<lparr>Real = fsub (Real c) (Real other), Imag = fsub (Imag c) (Imag other)\<rparr>"

definition Mul :: "Complex \<Rightarrow> Complex \<Rightarrow> Complex" where
  "Mul c other =
     \<lparr>Real = fsub (fmul (Real c) (Real other)) (fmul (Imag c) (Imag other)),
      Imag = fadd (fmul (Real c) (Imag other)) (fmul (Imag c) (Real other))\<rparr>"

definition MulScalar :: "Complex \<Rightarrow> float64 \<Rightarrow> Complex" where
  "MulScalar c scalar = \<lparr>Real = fmul (Real c) scalar, Imag = fmul (Imag c) scalar\<rparr>"

section \<open>cooley_tukey.go\<close>

text \<open>
  A slice is the list of its elements; a function that writes into its argument returns
  the new contents. An index outside the slice is the run-time panic of Go, a value of
  the model. A call that never returns has no result: \<open>None\<close>.
\<close>

datatype panic = IndexOutOfRange | MakesliceCapOutOfRange

text \<open>The first loop of \<open>fft\<close>: \<open>a0\<close> and \<open>a1\<close> grow by one element per index.\<close>

fun split_loop ::
  "Complex list \<Rightarrow> nat list \<Rightarrow> Complex list \<times> Complex list \<Rightarrow> panic + Complex list \<times> Complex list"
where
  "split_loop arr [] (a0, a1) = Inr (a0, a1)"
| "split_loop arr (i # is) (a0, a1) =
     (if 2 * i + 1 < length arr
      then split_loop arr is (a0 @ [arr ! (2 * i)], a1 @ [arr ! (2 * i + 1)])
      else Inl IndexOutOfRange)"

text \<open>
  The second loop of \<open>fft\<close>, over the state \<open>(arr, w)\<close>; \<open>a0\<close> and \<open>a1\<close> are the
  transformed halves.
\<close>

fun combine_loop ::
  "Complex \<Rightarrow> nat \<Rightarrow> Complex list \<Rightarrow> Complex list \<Rightarrow> nat list \<Rightarrow> Complex list \<times> Complex
     \<Rightarrow> panic + Complex list \<times> Complex"
where
  "combine_loop wn n a0 a1 [] (arr, w) = Inr (arr, w)"
| "combine_loop wn n a0 a1 (i # is) (arr, w) =
     (if i < length a0 \<and> i < length a1 \<and> i + n div 2 < length arr
      then
        let p = a0 ! i;
            q = Mul w (a1 ! i)
        in combine_loop wn n a0 a1 is ((arr[i := Add p q])[i + n div 2 := Sub p q], Mul w wn)
      else Inl IndexOutOfRange)"

text \<open>
  The rest of \<open>fft\<close> after the two recursive calls: the angle \<open>ang\<close>, the twiddle base
  \<open>wn\<close>, the start value of \<open>w\<close>, and the second loop, which leaves \<open>arr\<close> rewritten.
\<close>

definition twiddle :: "mathlib \<Rightarrow> nat \<Rightarrow> Complex" where
  "twiddle L n =
     (let ang = fdiv neg_two_pi (float64_of_nat n)
      in \<lparr>Real = Cos L ang, Imag = Sin L ang\<rparr>)"

definition combine ::
  "mathlib \<Rightarrow> Complex list \<Rightarrow> Complex list \<Rightarrow> Complex list \<Rightarrow> panic + Complex list"
where
  "combine L arr a0 a1 =
     (let n = length arr;
          w = \<lparr>Real = f_one, Imag = f_zero\<rparr>;
          wn = twiddle L n
      in map_sum id fst (combine_loop wn n a0 a1 [0..<n div 2] (arr, w)))"

partial_function (option) fft :: "mathlib \<Rightarrow> Complex list \<Rightarrow> (panic + Complex list) option" where
  "fft L arr =
     (if length arr = 1 then Some (Inr arr)
      else
        case split_loop arr [0..<length arr div 2] ([], []) of
          Inl e \<Rightarrow> Some (Inl e)
        | Inr (a0, a1) \<Rightarrow>
            Option.bind (fft L a0) (\<lambda>r0.
              case r0 of
                Inl e \<Rightarrow> Some (Inl e)
              | Inr b0 \<Rightarrow>
                  Option.bind (fft L a1) (\<lambda>r1.
                    case r1 of
                      Inl e \<Rightarrow> Some (Inl e)
                    | Inr b1 \<Rightarrow> Some (combine L arr b0 b1))))"

text \<open>The loop of \<open>FFT\<close>, its factor \<open>1.0 / math.Sqrt(float64(len(arr)))\<close>, and \<open>FFT\<close>.\<close>

fun scale_loop :: "float64 \<Rightarrow> nat list \<Rightarrow> Complex list \<Rightarrow> panic + Complex list" where
  "scale_loop factor [] arr = Inr arr"
| "scale_loop factor (i # is) arr =
     (if i < length arr then scale_loop factor is (arr[i := MulScalar (arr ! i) factor])
      else Inl IndexOutOfRange)"

definition norm_factor :: "nat \<Rightarrow> float64" where
  "norm_factor n = fdiv f_one (Sqrt (float64_of_nat n))"

definition FFT :: "mathlib \<Rightarrow> Complex list \<Rightarrow> (panic + Complex list) option" where
  "FFT L arr =
     Option.bind (fft L arr) (\<lambda>r.
       case r of
         Inl e \<Rightarrow> Some (Inl e)
       | Inr arr1 \<Rightarrow> Some (scale_loop (norm_factor (length arr)) [0..<length arr] arr1))"

text \<open>
  For the statements below: the elements of an input at the even and at the odd
  positions, in their order, and the power \<open>wn^i\<close> of the twiddle base as the program
  computes it, by \<open>i\<close> multiplications by \<open>wn\<close> that start from \<open>(1, 0)\<close>.
\<close>

definition evens :: "Complex list \<Rightarrow> Complex list" where
  "evens arr = map (\<lambda>i. arr ! (2 * i)) [0..<length arr div 2]"

definition odds :: "Complex list \<Rightarrow> Complex list" where
  "odds arr = map (\<lambda>i. arr ! (2 * i + 1)) [0..<length arr div 2]"

fun twiddle_power :: "Complex \<Rightarrow> nat \<Rightarrow> Complex" where
  "twiddle_power wn 0 = \<lparr>Real = f_one, Imag = f_zero\<rparr>"
| "twiddle_power wn (Suc i) = Mul (twiddle_power wn i) wn"

section \<open>The Swift port\<close>











section \<open>The command-line program (Go)\<close>

text \<open>
  \<open>strconv.Atoi\<close>: an optional sign and at least one decimal digit, no other character,
  and a value that fits the 64-bit \<open>int\<close>; anything else is an error (\<open>None\<close>).
\<close>

definition digit_of :: "char \<Rightarrow> nat option" where
  "digit_of c =
     (if of_char (CHR ''0'') \<le> (of_char c :: nat) \<and> (of_char c :: nat) \<le> of_char (CHR ''9'')
      then Some (of_char c - of_char (CHR ''0''))
      else None)"

fun digits_value :: "nat \<Rightarrow> string \<Rightarrow> nat option" where
  "digits_value acc [] = Some acc"
| "digits_value acc (c # cs) =
     (case digit_of c of None \<Rightarrow> None | Some d \<Rightarrow> digits_value (10 * acc + d) cs)"

definition Atoi :: "string \<Rightarrow> int option" where
  "Atoi s =
     (let neg = (s \<noteq> [] \<and> hd s = CHR ''-'');
          ds = (if s \<noteq> [] \<and> (hd s = CHR ''-'' \<or> hd s = CHR ''+'') then tl s else s)
      in if ds = [] then None
         else
           case digits_value 0 ds of
             None \<Rightarrow> None
           | Some v \<Rightarrow>
               let x = (if neg then - int v else int v)
               in if - (2 ^ 63) \<le> x \<and> x < 2 ^ 63 then Some x else None)"

definition round :: "float64 \<Rightarrow> float64" where
  "round n = fdiv (Round (fmul n f_hundred)) f_hundred"

text \<open>
  \<open>make([]f.Complex, 0, len)\<close> calls \<open>makeslice\<close> of the Go runtime, which panics with
  \<open>makeslice: cap out of range\<close> when the capacity is negative, when the size of the
  slice in bytes (16 bytes for each \<open>Complex\<close>) does not fit the 64-bit \<open>uintptr\<close>, or
  when that size is above \<open>maxAlloc\<close>, the largest allocation the runtime ever makes.
  \<open>maxAlloc\<close> is a constant of the platform, not of the repository: a parameter of the
  model (\<open>2^48\<close> bytes on 64-bit Linux). The memory the machine really has is not
  modelled: an allocation within \<open>maxAlloc\<close> succeeds.
\<close>

definition makeslice_cap_ok :: "nat \<Rightarrow> int \<Rightarrow> bool" where
  "makeslice_cap_ok maxAlloc cap = (0 \<le> cap \<and> 16 * cap < 2 ^ 64 \<and> 16 * cap \<le> int maxAlloc)"

definition maxAlloc_linux_amd64 :: nat where
  "maxAlloc_linux_amd64 = 2 ^ 48"

definition generateInputs :: "mathlib \<Rightarrow> nat \<Rightarrow> int \<Rightarrow> panic + Complex list" where
  "generateInputs L maxAlloc len =
     (if \<not> makeslice_cap_ok maxAlloc len then Inl MakesliceCapOutOfRange
      else
        Inr (map (\<lambda>i.
               let theta = fmul (fdiv (float64_of_nat i) (float64_of_nat (nat len))) f_pi;
                   re = fadd (fmul f_one (Cos L (fmul f_ten theta)))
                          (fmul f_half (Cos L (fmul f_twenty_five theta)));
                   im = fadd (fmul f_one (Sin L (fmul f_ten theta)))
                          (fmul f_half (Sin L (fmul f_twenty_five theta)))
               in \<lparr>Real = round re, Imag = round im\<rparr>)
             [0..<nat len]))"

text \<open>
  What a run of \<open>main\<close> ends in: \<open>os.Exit\<close> with a status after a line on the standard
  error stream, a panic, or the normal end after the transform (the elapsed time it
  prints is not modelled; the transformed buffer is kept to tell what was computed).
\<close>

datatype outcome = Exit nat string | Panicked panic | Completed "Complex list"

text \<open>\<open>1 << uint(size)\<close> on the 64-bit \<open>int\<close>.\<close>

definition shift_size :: "int \<Rightarrow> int" where
  "shift_size sz = sint (push_bit (nat sz) (1 :: 64 word))"

definition main :: "mathlib \<Rightarrow> nat \<Rightarrow> string list \<Rightarrow> outcome option" where
  "main L maxAlloc Args =
     (if length Args < 2
      then (if Args = [] then Some (Panicked IndexOutOfRange)
            else Some (Exit 1 (''usage: '' @ Args ! 0 @ '' <size>'')))
      else
        case Atoi (Args ! 1) of
          None \<Rightarrow> Some (Exit 1 ''invalid <size>; must be a non-negative integer'')
        | Some sz \<Rightarrow>
            if sz < 0 then Some (Exit 1 ''invalid <size>; must be a non-negative integer'')
            else
              let n = shift_size sz in
              case generateInputs L maxAlloc n of
                Inl e \<Rightarrow> Some (Panicked e)
              | Inr signals \<Rightarrow>
                  Option.bind (FFT L signals) (\<lambda>r.
                    case r of
                      Inl e \<Rightarrow> Some (Panicked e)
                    | Inr out \<Rightarrow> Some (Completed out)))"

section \<open>Bounds on magnitudes\<close>

text \<open>
  For the statement about overflow: a Complex value with both components below \<open>2^K\<close> in
  magnitude, a float64 value that is at least \<open>1\<close> (or \<open>+Inf\<close>), and the number of binary
  orders of magnitude by which the results of \<open>fft\<close> on \<open>n\<close> elements can exceed its
  inputs, counted generously: six for the combine loop of each level, and there are as
  many levels as halvings take \<open>n\<close> to \<open>1\<close>.
\<close>

definition components_below :: "int \<Rightarrow> Complex \<Rightarrow> bool" where
  "components_below K c = (magnitude_below K (Real c) \<and> magnitude_below K (Imag c))"

definition at_least_one :: "float64 \<Rightarrow> bool" where
  "at_least_one x =
     (case x of
        Finite s m e \<Rightarrow> \<not> s \<and> wf_float64 x \<and> 2 ^ 52 \<le> m \<and> - 52 \<le> e
      | Infinity s \<Rightarrow> \<not> s
      | NaN \<Rightarrow> False)"

function growth :: "nat \<Rightarrow> nat" where
  "growth n = (if n \<le> 1 then 0 else growth (n div 2) + 6)"
  by pat_completeness auto
termination
  by (relation "measure (\<lambda>n. n)") auto

declare growth.simps [simp del]

text \<open>
  The real number that a finite float64 value stands for (\<open>valof\<close>) and the complex
  number that a Complex value stands for (\<open>cval\<close>); \<open>tiny\<close>, half of the smallest
  positive float64, the largest error of a rounding in the subnormal range; and
  \<open>near_unit c s\<close>: \<open>c\<close> and \<open>s\<close> are finite float64 values with \<open>c^2 + s^2 \<le> 1 + 2^-49\<close>
  as real numbers. The cosine and the sine of one angle are such a pair when each is
  accurate to a few units in the last place of \<open>1\<close>.
\<close>

definition valof :: "float64 \<Rightarrow> real" where
  "valof x =
     (case x of
        Finite s m e \<Rightarrow> (if s then - real m else real m) * 2 powi e
      | Infinity s \<Rightarrow> 0
      | NaN \<Rightarrow> 0)"

definition cval :: "Complex \<Rightarrow> complex" where
  "cval c = Complex (valof (Real c)) (valof (Imag c))"

definition tiny :: real where
  "tiny = 2 powi (- 1075)"

definition near_unit :: "float64 \<Rightarrow> float64 \<Rightarrow> bool" where
  "near_unit c s =
     (is_finite c \<and> wf_float64 c \<and> is_finite s \<and> wf_float64 s \<and>
      (valof c)\<^sup>2 + (valof s)\<^sup>2 \<le> 1 + 1 / 2 ^ 49)"

section \<open>The loops of the transform\<close>

lemma split_loop_acc:
  "\<forall>i\<in>set is. 2 * i + 1 < length arr \<Longrightarrow>
   split_loop arr is (a0, a1) =
     Inr (a0 @ map (\<lambda>i. arr ! (2 * i)) is, a1 @ map (\<lambda>i. arr ! (2 * i + 1)) is)"
  by (induction "is" arbitrary: a0 a1) simp_all

lemma split_loop_eq:
  "split_loop arr [0..<length arr div 2] ([], []) = Inr (evens arr, odds arr)"
proof -
  have "\<forall>i\<in>set [0..<length arr div 2]. 2 * i + 1 < length arr"
    by auto
  then show ?thesis
    by (simp add: split_loop_acc evens_def odds_def)
qed

lemma length_evens [simp]: "length (evens arr) = length arr div 2"
  by (simp add: evens_def)

lemma length_odds [simp]: "length (odds arr) = length arr div 2"
  by (simp add: odds_def)

lemma fft_unfold:
  "fft L arr =
     (if length arr = 1 then Some (Inr arr)
      else
        Option.bind (fft L (evens arr)) (\<lambda>r0.
          case r0 of
            Inl e \<Rightarrow> Some (Inl e)
          | Inr b0 \<Rightarrow>
              Option.bind (fft L (odds arr)) (\<lambda>r1.
                case r1 of
                  Inl e \<Rightarrow> Some (Inl e)
                | Inr b1 \<Rightarrow> Some (combine L arr b0 b1))))"
  by (subst fft.simps) (simp add: split_loop_eq)

lemma combine_loop_append:
  "combine_loop wn n a0 a1 (xs @ ys) st =
     (case combine_loop wn n a0 a1 xs st of
        Inl e \<Rightarrow> Inl e
      | Inr st' \<Rightarrow> combine_loop wn n a0 a1 ys st')"
proof (induction xs arbitrary: st)
  case Nil
  then show ?case by (cases st) simp
next
  case (Cons i xs)
  then show ?case by (cases st) (simp add: Let_def)
qed

lemma combine_loop_prefix:
  assumes "length a0 = n div 2" "length a1 = n div 2" "length arr = n" "k \<le> n div 2"
  shows "\<exists>res. combine_loop wn n a0 a1 [0..<k] (arr, twiddle_power wn 0) = Inr (res, twiddle_power wn k) \<and>
           length res = n \<and>
           (\<forall>i<k. res ! i = Add (a0 ! i) (Mul (twiddle_power wn i) (a1 ! i)) \<and>
                  res ! (i + n div 2) = Sub (a0 ! i) (Mul (twiddle_power wn i) (a1 ! i))) \<and>
           (\<forall>j<n. (k \<le> j \<and> j < n div 2) \<or> n div 2 + k \<le> j \<longrightarrow> res ! j = arr ! j)"
  using assms(4)
proof (induction k)
  case 0
  then show ?case using assms(3) by simp
next
  case (Suc k)
  then obtain res where r:
    "combine_loop wn n a0 a1 [0..<k] (arr, twiddle_power wn 0) = Inr (res, twiddle_power wn k)"
    "length res = n"
    "\<forall>i<k. res ! i = Add (a0 ! i) (Mul (twiddle_power wn i) (a1 ! i)) \<and>
                  res ! (i + n div 2) = Sub (a0 ! i) (Mul (twiddle_power wn i) (a1 ! i))"
    "\<forall>j<n. (k \<le> j \<and> j < n div 2) \<or> n div 2 + k \<le> j \<longrightarrow> res ! j = arr ! j"
    by auto
  let ?p = "a0 ! k" and ?q = "Mul (twiddle_power wn k) (a1 ! k)"
  let ?res = "(res[k := Add ?p ?q])[k + n div 2 := Sub ?p ?q]"
  have kn: "k < n div 2" "k + n div 2 < n" using Suc.prems by auto
  have step: "combine_loop wn n a0 a1 [0..<Suc k] (arr, twiddle_power wn 0) =
              Inr (?res, twiddle_power wn (Suc k))"
    using r(1,2) kn assms(1,2) by (simp add: combine_loop_append Let_def)
  have len: "length ?res = n" using r(2) by simp
  have vals: "\<forall>i<Suc k. ?res ! i = Add (a0 ! i) (Mul (twiddle_power wn i) (a1 ! i)) \<and>
                  ?res ! (i + n div 2) = Sub (a0 ! i) (Mul (twiddle_power wn i) (a1 ! i))"
  proof (intro allI impI)
    fix i assume "i < Suc k"
    show "?res ! i = Add (a0 ! i) (Mul (twiddle_power wn i) (a1 ! i)) \<and>
          ?res ! (i + n div 2) = Sub (a0 ! i) (Mul (twiddle_power wn i) (a1 ! i))"
    proof (cases "i = k")
      case True
      then show ?thesis using kn r(2) by (simp add: nth_list_update)
    next
      case False
      with \<open>i < Suc k\<close> have "i < k" by simp
      then show ?thesis using r(3) kn r(2) by (simp add: nth_list_update)
    qed
  qed
  have rest: "\<forall>j<n. (Suc k \<le> j \<and> j < n div 2) \<or> n div 2 + Suc k \<le> j \<longrightarrow> ?res ! j = arr ! j"
    using r(4) r(2) kn by (auto simp: nth_list_update)
  from step len vals rest show ?case by blast
qed

lemma scale_loop_append:
  "scale_loop f (xs @ ys) arr =
     (case scale_loop f xs arr of Inl e \<Rightarrow> Inl e | Inr arr' \<Rightarrow> scale_loop f ys arr')"
  by (induction xs arbitrary: arr) simp_all

lemma scale_loop_prefix:
  "k \<le> length arr \<Longrightarrow>
   scale_loop f [0..<k] arr = Inr (map (\<lambda>c. MulScalar c f) (take k arr) @ drop k arr)"
proof (induction k)
  case 0
  then show ?case by simp
next
  case (Suc k)
  then have k: "k < length arr" by simp
  have "(map (\<lambda>c. MulScalar c f) (take k arr) @ drop k arr)[k := MulScalar (arr ! k) f]
        = map (\<lambda>c. MulScalar c f) (take (Suc k) arr) @ drop (Suc k) arr"
    using k by (simp add: take_Suc_conv_app_nth list_update_append Cons_nth_drop_Suc [symmetric])
  then show ?case using Suc k by (simp add: scale_loop_append nth_append)
qed

lemma scale_loop_eq:
  "length arr1 = n \<Longrightarrow> scale_loop f [0..<n] arr1 = Inr (map (\<lambda>c. MulScalar c f) arr1)"
  using scale_loop_prefix [of n arr1 f] by simp

lemma fft_returns:
  "arr \<noteq> [] \<Longrightarrow> \<exists>out. fft L arr = Some (Inr out) \<and> length out = length arr"
proof (induction "length arr" arbitrary: arr rule: less_induct)
  case less
  show ?case
  proof (cases "length arr = 1")
    case True
    then show ?thesis by (subst fft_unfold) simp
  next
    case False
    with less.prems have n: "2 \<le> length arr" by (cases arr) (auto simp: Suc_le_eq)
    then have h: "length arr div 2 < length arr" "0 < length arr div 2" by auto
    have "evens arr \<noteq> []" "odds arr \<noteq> []" using h(2) by (auto simp: evens_def odds_def)
    moreover have "length (evens arr) < length arr" "length (odds arr) < length arr"
      using h(1) by simp_all
    ultimately obtain b0 b1 where
      b0: "fft L (evens arr) = Some (Inr b0)" "length b0 = length arr div 2" and
      b1: "fft L (odds arr) = Some (Inr b1)" "length b1 = length arr div 2"
      using less.hyps by (metis length_evens length_odds)
    obtain res where
      "combine_loop (twiddle L (length arr)) (length arr) b0 b1 [0..<length arr div 2]
         (arr, twiddle_power (twiddle L (length arr)) 0) =
       Inr (res, twiddle_power (twiddle L (length arr)) (length arr div 2))"
      "length res = length arr"
      using combine_loop_prefix [OF b0(2) b1(2) refl order_refl] by blast
    then have "combine L arr b0 b1 = Inr res"
      by (simp add: combine_def)
    with b0 b1 False \<open>length res = length arr\<close> show ?thesis
      by (subst fft_unfold) simp
  qed
qed

lemma fft_Some_nonempty:
  assumes "fft L arr = Some y"
  shows "arr \<noteq> []"
proof (rule fft.raw_induct [where P = "\<lambda>L arr y. arr \<noteq> []", OF _ assms], goal_cases)
  case (1 f L' arr' y')
  show ?case
  proof
    assume "arr' = []"
    with 1(2) obtain r0 where "f L' [] = Some r0"
      by (auto simp: Option.bind_eq_Some_conv)
    with 1(1) show False by blast
  qed
qed

lemma fft_Nil: "fft L [] = None"
  using fft_Some_nonempty [of L "[]"] by (cases "fft L []") auto

lemma FFT_of_fft:
  assumes "fft L arr = Some (Inr out)" "length out = length arr"
  shows "FFT L arr = Some (Inr (map (\<lambda>c. MulScalar c (norm_factor (length arr))) out))"
  using assms by (simp add: FFT_def scale_loop_eq)

lemma FFT_returns:
  assumes "arr \<noteq> []"
  shows "\<exists>out. FFT L arr = Some (Inr out) \<and> length out = length arr"
proof -
  obtain out where "fft L arr = Some (Inr out)" "length out = length arr"
    using fft_returns [OF assms] by blast
  then show ?thesis using FFT_of_fft by fastforce
qed

lemma FFT_Nil: "FFT L [] = None"
  by (simp add: FFT_def fft_Nil)

lemma fft_step:
  assumes "arr \<noteq> []" "length arr \<noteq> 1"
  shows "\<exists>b0 b1 out. fft L (evens arr) = Some (Inr b0) \<and> length b0 = length arr div 2 \<and>
           fft L (odds arr) = Some (Inr b1) \<and> length b1 = length arr div 2 \<and>
           combine L arr b0 b1 = Inr out \<and> fft L arr = Some (Inr out) \<and> length out = length arr"
proof -
  from assms have n: "2 \<le> length arr" by (cases arr) (auto simp: Suc_le_eq)
  then have "evens arr \<noteq> []" "odds arr \<noteq> []" by (auto simp: evens_def odds_def)
  then obtain b0 b1 where
    b: "fft L (evens arr) = Some (Inr b0)" "length b0 = length arr div 2"
       "fft L (odds arr) = Some (Inr b1)" "length b1 = length arr div 2"
    using fft_returns [of "evens arr" L] fft_returns [of "odds arr" L] by auto
  obtain out where o: "fft L arr = Some (Inr out)" "length out = length arr"
    using fft_returns [OF assms(1), of L] by blast
  have "fft L arr = Some (combine L arr b0 b1)"
    using b assms(2) by (subst fft_unfold) simp
  with o have "combine L arr b0 b1 = Inr out" by simp
  with b o show ?thesis by blast
qed

lemma twiddle_eq:
  "twiddle L n =
     \<lparr>Real = Cos L (fdiv neg_two_pi (float64_of_nat n)),
      Imag = Sin L (fdiv neg_two_pi (float64_of_nat n))\<rparr>"
  by (simp add: twiddle_def Let_def)

lemma nth_evens: "i < length arr div 2 \<Longrightarrow> evens arr ! i = arr ! (2 * i)"
  by (simp add: evens_def)

lemma nth_odds: "i < length arr div 2 \<Longrightarrow> odds arr ! i = arr ! (2 * i + 1)"
  by (simp add: odds_def)

section \<open>Evaluating float64 arithmetic\<close>

lemmas float_eval =
  fadd.simps fmul.simps fdiv.simps Sqrt.simps fsub_def fneg_def float64_of_nat_def
  round_float_def round_at_def round_shift_def round_even_def pack_def pack_exp_def
  round_sum_def signed_value_def sticky_def root_sticky_def sqrt_exp_def isqrt_step_def
  isqrt.simps bitlen.simps f_one_def f_zero_def f_half_def neg_two_pi_def f_neg_two_def f_pi_def

lemma bitlen_0 [simp]: "bitlen 0 = 0"
  by (simp add: bitlen.simps)

lemma bitlen_pos: "0 < m \<Longrightarrow> bitlen m = Suc (bitlen (m div 2))"
  by (subst bitlen.simps) simp

lemma bitlen_le: "m < 2 ^ b \<Longrightarrow> bitlen m \<le> b"
proof (induction b arbitrary: m)
  case 0
  then show ?case by simp
next
  case (Suc b)
  show ?case
  proof (cases "m = 0")
    case True
    then show ?thesis by simp
  next
    case False
    from Suc.prems have "m div 2 < 2 ^ b" by simp
    then have "bitlen (m div 2) \<le> b" by (rule Suc.IH)
    with False show ?thesis by (simp add: bitlen_pos)
  qed
qed

lemma bitlen_gt: "2 ^ b \<le> m \<Longrightarrow> b < bitlen m"
proof (induction b arbitrary: m)
  case 0
  then show ?case by (simp add: bitlen_pos)
next
  case (Suc b)
  then have "2 ^ b \<le> m div 2" by simp
  then have "b < bitlen (m div 2)" by (rule Suc.IH)
  moreover from Suc.prems have "0 < m" by (cases m) auto
  ultimately show ?case by (simp add: bitlen_pos)
qed

lemma bitlen_eq: "2 ^ b \<le> m \<Longrightarrow> m < 2 ^ Suc b \<Longrightarrow> bitlen m = Suc b"
  using bitlen_le [of m "Suc b"] bitlen_gt [of b m] by simp

lemma bitlen_double: "0 < m \<Longrightarrow> bitlen (2 * m) = Suc (bitlen m)"
  by (subst bitlen.simps) simp

lemma bitlen_mult_pow2: "0 < m \<Longrightarrow> bitlen (m * 2 ^ k) = bitlen m + k"
proof (induction k)
  case 0
  then show ?case by simp
next
  case (Suc k)
  have "bitlen (m * 2 ^ Suc k) = bitlen (2 * (m * 2 ^ k))" by (simp add: mult.left_commute)
  also have "\<dots> = Suc (bitlen (m * 2 ^ k))" using Suc.prems by (intro bitlen_double) simp
  finally show ?case using Suc by simp
qed

lemma pack_id: "m < 2 ^ 53 \<Longrightarrow> e \<le> 971 \<Longrightarrow> pack s m e = Finite s m e"
  by (simp add: pack_def pack_exp_def)

lemma wf_Finite_iff:
  "wf_float64 (Finite s m e) \<longleftrightarrow>
     (m < 2 ^ 52 \<and> e = - 1074) \<or> (2 ^ 52 \<le> m \<and> m < 2 ^ 53 \<and> - 1074 \<le> e \<and> e \<le> 971)"
  by (simp add: wf_float64_def)

lemma round_float_exact:
  assumes "wf_float64 (Finite s m e)"
  shows "round_float s (m * 2 ^ k) (e - int k) = Finite s m e"
proof (cases "m = 0")
  case True
  with assms show ?thesis by (simp add: round_float_def wf_Finite_iff)
next
  case False
  then have pos: "0 < m" by simp
  have m53: "m < 2 ^ 53" and e971: "e \<le> 971"
    using assms by (auto simp: wf_Finite_iff intro: less_trans)
  have e1: "max (e - int k + int (bitlen (m * 2 ^ k)) - 53) (- 1074) = e"
  proof (cases "m < 2 ^ 52")
    case True
    then have "bitlen m \<le> 52" by (rule bitlen_le)
    moreover from True assms have "e = - 1074" by (simp add: wf_Finite_iff)
    ultimately show ?thesis using pos by (simp add: bitlen_mult_pow2)
  next
    case False
    then have "2 ^ 52 \<le> m" by simp
    then have "bitlen m = 53" using m53 bitlen_eq [of 52 m] by simp
    moreover from False assms have "- 1074 \<le> e" by (simp add: wf_Finite_iff)
    ultimately show ?thesis using pos by (simp add: bitlen_mult_pow2)
  qed
  have "round_at s (m * 2 ^ k) (e - int k) e = Finite s m e"
  proof (cases "k = 0")
    case True
    then show ?thesis using m53 e971 by (simp add: round_at_def pack_id)
  next
    case False
    then have "round_at s (m * 2 ^ k) (e - int k) e = round_shift s (m * 2 ^ k) k e"
      by (simp add: round_at_def)
    also have "\<dots> = pack s m e"
      using False by (simp add: round_shift_def round_even_def)
    finally show ?thesis using m53 e971 by (simp add: pack_id)
  qed
  with False e1 show ?thesis by (simp add: round_float_def)
qed

lemma fmul_one_right: "wf_float64 x \<Longrightarrow> fmul x f_one = x"
proof (cases x)
  case (Finite s m e)
  assume "wf_float64 x"
  with Finite round_float_exact [of s m e 52] show ?thesis
    by (simp add: f_one_def fmul.simps)
qed (simp_all add: f_one_def fmul.simps)

lemma fmul_one_left: "wf_float64 x \<Longrightarrow> fmul f_one x = x"
proof (cases x)
  case (Finite s m e)
  assume "wf_float64 x"
  with Finite round_float_exact [of s m e 52] show ?thesis
    by (simp add: f_one_def mult.commute fmul.simps)
qed (simp_all add: f_one_def fmul.simps)

lemma fmul_zero_right: "fmul (Finite s m e) (Finite sz 0 ez) = Finite (s \<noteq> sz) 0 (- 1074)"
  by (simp add: round_float_def fmul.simps)

lemma fmul_zero_left: "fmul (Finite sz 0 ez) (Finite s m e) = Finite (sz \<noteq> s) 0 (- 1074)"
  by (simp add: round_float_def fmul.simps)

lemma fadd_zero_right:
  assumes "wf_float64 (Finite s m e)"
  shows "fadd (Finite s m e) (Finite sz 0 (- 1074)) =
           (if m = 0 then Finite (s \<and> sz) 0 (- 1074) else Finite s m e)"
proof (cases "m = 0")
  case True
  then show ?thesis by (simp add: round_sum_def signed_value_def fadd.simps)
next
  case False
  from assms have e: "- 1074 \<le> e" by (auto simp: wf_Finite_iff)
  then have mn: "min e (- 1074) = - 1074" by simp
  define v where "v = signed_value s m * 2 ^ nat (e + 1074)"
  have sum: "fadd (Finite s m e) (Finite sz 0 (- 1074)) = round_sum (s \<and> sz) (- 1074) v"
    by (simp add: mn v_def signed_value_def fadd.simps)
  have nz: "v \<noteq> 0" using False by (simp add: v_def signed_value_def)
  have neg: "(v < 0) = s"
    using False by (simp add: v_def signed_value_def mult_less_0_iff)
  have ab: "nat \<bar>v\<bar> = m * 2 ^ nat (e + 1074)"
    by (simp add: v_def signed_value_def abs_mult nat_mult_distrib nat_power_eq)
  have ex: "- 1074 = e - int (nat (e + 1074))" using e by simp
  have "round_float s (m * 2 ^ nat (e + 1074)) (- 1074) = Finite s m e"
    by (subst ex) (rule round_float_exact [OF assms])
  then have "round_sum (s \<and> sz) (- 1074) v = Finite s m e"
    by (simp add: round_sum_def nz neg ab)
  with sum False show ?thesis by simp
qed




lemma angle_4: "fdiv neg_two_pi (float64_of_nat 4) = Finite True 7074237752028440 (- 52)"
  by (simp add: float_eval)

lemma angle_2: "fdiv neg_two_pi (float64_of_nat 2) = Finite True 7074237752028440 (- 51)"
  by (simp add: float_eval)

section \<open>The transform of one, two and four elements\<close>

lemma fft_single: "fft L [x] = Some (Inr [x])"
  by (subst fft_unfold) simp

lemma evens_pair: "evens [a, b] = [a]" and odds_pair: "odds [a, b] = [b]"
  by (simp_all add: evens_def odds_def)

lemma evens_quad: "evens [a, b, c, d] = [a, c]" and odds_quad: "odds [a, b, c, d] = [b, d]"
  by (simp_all add: evens_def odds_def upt_rec)

lemma fft_pair:
  "fft L [a, b] =
     Some (Inr [Add a (Mul \<lparr>Real = f_one, Imag = f_zero\<rparr> b),
                Sub a (Mul \<lparr>Real = f_one, Imag = f_zero\<rparr> b)])"
  by (subst fft_unfold) (simp add: evens_pair odds_pair fft_single combine_def Let_def)

lemma fft_quad:
  assumes "fft L [a, c] = Some (Inr [e0, e1])" "fft L [b, d] = Some (Inr [o0, o1])"
  shows "fft L [a, b, c, d] =
     Some (Inr [Add e0 (Mul \<lparr>Real = f_one, Imag = f_zero\<rparr> o0),
                Add e1 (Mul (Mul \<lparr>Real = f_one, Imag = f_zero\<rparr> (twiddle L 4)) o1),
                Sub e0 (Mul \<lparr>Real = f_one, Imag = f_zero\<rparr> o0),
                Sub e1 (Mul (Mul \<lparr>Real = f_one, Imag = f_zero\<rparr> (twiddle L 4)) o1)])"
proof -
  have 4: "Suc (Suc (Suc (Suc 0))) = 4" by simp
  show ?thesis using assms
    by (subst fft_unfold) (simp add: evens_quad odds_quad combine_def Let_def upt_rec 4)
qed

lemma norm_factor_1': "norm_factor 1 = f_one"
  by (simp add: norm_factor_def float_eval)

lemma norm_factor_1: "norm_factor (Suc 0) = f_one"
  using norm_factor_1' by simp

lemma norm_factor_2: "norm_factor 2 = Finite False 6369051672525772 (- 53)"
  by (simp add: norm_factor_def float_eval)

lemma norm_factor_4: "norm_factor 4 = f_half"
  by (simp add: norm_factor_def float_eval)

lemma MulScalar_one:
  "wf_float64 (Real x) \<Longrightarrow> wf_float64 (Imag x) \<Longrightarrow> MulScalar x f_one = x"
  by (simp add: MulScalar_def fmul_one_right)

lemma is_finiteE: "is_finite x \<Longrightarrow> \<exists>s m e. x = Finite s m e"
  by (cases x) (simp_all add: is_finite_def)

lemma zero_plus_zero:
  "fadd (Finite s1 0 (- 1074)) (Finite s2 0 (- 1074)) = Finite (s1 \<and> s2) 0 (- 1074)"
  by (simp add: fadd.simps round_sum_def signed_value_def)

lemma zero_minus_zero:
  "fsub (Finite s1 0 (- 1074)) (Finite s2 0 (- 1074)) = Finite (s1 \<and> \<not> s2) 0 (- 1074)"
  by (simp add: fsub_def fneg_def zero_plus_zero)

lemma wf_one: "wf_float64 (Finite False (2 ^ 52) (- 52))"
  by (simp add: wf_float64_def)

lemma one_plus_zero: "fadd f_one (Finite s 0 (- 1074)) = f_one"
  using fadd_zero_right [OF wf_one, of s] by (simp add: f_one_def)

lemma one_minus_zero: "fsub f_one (Finite s 0 (- 1074)) = f_one"
  by (simp add: fsub_def fneg_def one_plus_zero)

lemma Add_one_zero:
  "Add \<lparr>Real = f_one, Imag = f_zero\<rparr> \<lparr>Real = Finite s1 0 (- 1074), Imag = Finite s2 0 (- 1074)\<rparr> =
     \<lparr>Real = f_one, Imag = f_zero\<rparr>"
  by (simp add: Add_def one_plus_zero) (simp add: f_zero_def zero_plus_zero)

lemma Sub_one_zero:
  "Sub \<lparr>Real = f_one, Imag = f_zero\<rparr> \<lparr>Real = Finite s1 0 (- 1074), Imag = Finite s2 0 (- 1074)\<rparr> =
     \<lparr>Real = f_one, Imag = f_zero\<rparr>"
  by (simp add: Sub_def one_minus_zero) (simp add: f_zero_def zero_minus_zero)

lemma Mul_finite_zero:
  "\<exists>s1 s2. Mul \<lparr>Real = Finite sr mr er, Imag = Finite si mi ei\<rparr> \<lparr>Real = f_zero, Imag = f_zero\<rparr> =
     \<lparr>Real = Finite s1 0 (- 1074), Imag = Finite s2 0 (- 1074)\<rparr>"
  by (simp add: Mul_def f_zero_def fmul_zero_right zero_plus_zero zero_minus_zero)

lemma fadd_zero_finite:
  assumes "wf_float64 (Finite s m e)"
  shows "is_finite (fadd (Finite s m e) (Finite sz 0 (- 1074)))"
  using fadd_zero_right [OF assms, of sz] by (cases "m = 0") (simp_all add: is_finite_def)

lemma Mul_one_finite:
  assumes "is_finite c" "wf_float64 c" "is_finite s" "wf_float64 s"
  shows "is_finite (Real (Mul \<lparr>Real = f_one, Imag = f_zero\<rparr> \<lparr>Real = c, Imag = s\<rparr>)) \<and>
         is_finite (Imag (Mul \<lparr>Real = f_one, Imag = f_zero\<rparr> \<lparr>Real = c, Imag = s\<rparr>))"
proof -
  from assms(1) obtain sc mc ec where c: "c = Finite sc mc ec"
    using is_finiteE by blast
  from assms(3) obtain ss ms es where s: "s = Finite ss ms es"
    using is_finiteE by blast
  have zs: "fmul f_zero s = Finite ss 0 (- 1074)"
    by (simp add: s f_zero_def fmul_zero_left)
  have zc: "fmul f_zero c = Finite sc 0 (- 1074)"
    by (simp add: c f_zero_def fmul_zero_left)
  have "fsub (fmul f_one c) (fmul f_zero s) = fadd (Finite sc mc ec) (Finite (\<not> ss) 0 (- 1074))"
    using fmul_one_left [OF assms(2)] by (simp add: zs fsub_def fneg_def c)
  then have r: "is_finite (fsub (fmul f_one c) (fmul f_zero s))"
    using fadd_zero_finite [of sc mc ec "\<not> ss"] assms(2) c by simp
  have "fadd (fmul f_one s) (fmul f_zero c) = fadd (Finite ss ms es) (Finite sc 0 (- 1074))"
    using fmul_one_left [OF assms(4)] by (simp add: zc s)
  then have i: "is_finite (fadd (fmul f_one s) (fmul f_zero c))"
    using fadd_zero_finite [of ss ms es sc] assms(4) s by simp
  from r i show ?thesis by (simp add: Mul_def)
qed

lemma one_times_zero:
  "Mul \<lparr>Real = f_one, Imag = f_zero\<rparr> \<lparr>Real = f_zero, Imag = f_zero\<rparr> = \<lparr>Real = f_zero, Imag = f_zero\<rparr>"
  by (simp add: Mul_def float_eval)

lemma zero_pm_zero:
  "Add \<lparr>Real = f_zero, Imag = f_zero\<rparr> \<lparr>Real = f_zero, Imag = f_zero\<rparr> = \<lparr>Real = f_zero, Imag = f_zero\<rparr>"
  "Sub \<lparr>Real = f_zero, Imag = f_zero\<rparr> \<lparr>Real = f_zero, Imag = f_zero\<rparr> = \<lparr>Real = f_zero, Imag = f_zero\<rparr>"
  by (simp_all add: Add_def Sub_def float_eval)

lemma one_pm_zero:
  "Add \<lparr>Real = f_one, Imag = f_zero\<rparr> \<lparr>Real = f_zero, Imag = f_zero\<rparr> = \<lparr>Real = f_one, Imag = f_zero\<rparr>"
  "Sub \<lparr>Real = f_one, Imag = f_zero\<rparr> \<lparr>Real = f_zero, Imag = f_zero\<rparr> = \<lparr>Real = f_one, Imag = f_zero\<rparr>"
  using Add_one_zero [of False False] Sub_one_zero [of False False] by (simp_all add: f_zero_def)

lemma one_scaled_half:
  "MulScalar \<lparr>Real = f_one, Imag = f_zero\<rparr> f_half = \<lparr>Real = f_half, Imag = f_zero\<rparr>"
  by (simp add: MulScalar_def float_eval)

lemma wf_max: "wf_float64 (Finite False 9007199254740991 971)"
  by (simp add: wf_float64_def)

lemma one_times_max:
  "Mul \<lparr>Real = f_one, Imag = f_zero\<rparr> \<lparr>Real = Finite False 9007199254740991 971, Imag = f_zero\<rparr> =
     \<lparr>Real = Finite False 9007199254740991 971, Imag = f_zero\<rparr>"
proof -
  have "fsub (fmul f_one (Finite False 9007199254740991 971)) (fmul f_zero f_zero) =
        Finite False 9007199254740991 971"
    using fadd_zero_right [OF wf_max, of True]
    by (simp add: fmul_one_left [OF wf_max] f_zero_def fmul_zero_left fsub_def fneg_def)
  moreover have "fadd (fmul f_one f_zero) (fmul f_zero (Finite False 9007199254740991 971)) = f_zero"
    by (simp add: f_zero_def f_one_def fmul_zero_left fmul_zero_right zero_plus_zero)
  ultimately show ?thesis by (simp add: Mul_def)
qed

lemma max_plus_max:
  "Add \<lparr>Real = Finite False 9007199254740991 971, Imag = f_zero\<rparr>
       \<lparr>Real = Finite False 9007199254740991 971, Imag = f_zero\<rparr> =
     \<lparr>Real = Infinity False, Imag = f_zero\<rparr>"
  by (simp add: Add_def float_eval)

lemma max_minus_max:
  "Sub \<lparr>Real = Finite False 9007199254740991 971, Imag = f_zero\<rparr>
       \<lparr>Real = Finite False 9007199254740991 971, Imag = f_zero\<rparr> =
     \<lparr>Real = f_zero, Imag = f_zero\<rparr>"
  by (simp add: Sub_def float_eval)

lemma scaled_overflow:
  "MulScalar \<lparr>Real = Infinity False, Imag = f_zero\<rparr> (Finite False 6369051672525772 (- 53)) =
     \<lparr>Real = Infinity False, Imag = f_zero\<rparr>"
  "MulScalar \<lparr>Real = f_zero, Imag = f_zero\<rparr> (Finite False 6369051672525772 (- 53)) =
     \<lparr>Real = f_zero, Imag = f_zero\<rparr>"
  by (simp_all add: MulScalar_def float_eval)

section \<open>Sums and products that cannot overflow\<close>

lemma bitlen_bound: "m < 2 ^ bitlen m"
proof (induction m rule: less_induct)
  case (less m)
  show ?case
  proof (cases "m = 0")
    case True
    then show ?thesis by simp
  next
    case False
    then have "m div 2 < m" by simp
    then have "m div 2 < 2 ^ bitlen (m div 2)" by (rule less.IH)
    then have "m < 2 * 2 ^ bitlen (m div 2)" by linarith
    with False show ?thesis by (simp add: bitlen_pos)
  qed
qed

lemma bitlen_mult_le: "bitlen (a * b) \<le> bitlen a + bitlen b"
proof -
  have "a * b < 2 ^ bitlen a * 2 ^ bitlen b"
  proof (cases "a = 0 \<or> b = 0")
    case True
    then show ?thesis by auto
  next
    case False
    then show ?thesis using bitlen_bound [of a] bitlen_bound [of b]
      by (intro mult_strict_mono) simp_all
  qed
  then have "a * b < 2 ^ (bitlen a + bitlen b)" by (simp add: power_add)
  then show ?thesis by (rule bitlen_le)
qed

lemma round_even_le: "round_even q r h \<le> q + 1"
  by (simp add: round_even_def)

lemma pack_small:
  assumes "m \<le> 2 ^ 53" "e \<le> 970"
  shows "\<exists>m' e'. pack s m e = Finite s m' e' \<and> m' < 2 ^ 53 \<and> e' \<le> e + 1"
proof (cases "m = 2 ^ 53")
  case True
  then show ?thesis using assms by (simp add: pack_def pack_exp_def)
next
  case False
  with assms have "m < 2 ^ 53" by simp
  then show ?thesis using assms False by (simp add: pack_def pack_exp_def)
qed

lemma round_float_small:
  assumes "M = 0 \<or> E + int (bitlen M) \<le> K" "K \<le> 1023"
  shows "\<exists>m e. round_float s M E = Finite s m e \<and> m < 2 ^ 53 \<and> e \<le> max (K - 52) (- 1073)"
proof (cases "M = 0")
  case True
  then show ?thesis by (simp add: round_float_def)
next
  case False
  with assms have K: "E + int (bitlen M) \<le> K" by simp
  define e1 where "e1 = max (E + int (bitlen M) - 53) (- 1074)"
  have e1_le: "e1 \<le> max (K - 53) (- 1074)" using K by (simp add: e1_def)
  then have e1_970: "e1 \<le> 970" using assms(2) by simp
  have e1_ge: "E + int (bitlen M) - 53 \<le> e1" by (simp add: e1_def)
  have rf: "round_float s M E = round_at s M E e1"
    using False by (simp add: round_float_def e1_def)
  have "\<exists>m e. round_at s M E e1 = Finite s m e \<and> m < 2 ^ 53 \<and> e \<le> e1 + 1"
  proof (cases "e1 \<le> E")
    case True
    have "bitlen M + nat (E - e1) \<le> 53" using True e1_ge by simp
    then have "(2::nat) ^ (bitlen M + nat (E - e1)) \<le> 2 ^ 53"
      by (intro power_increasing) simp_all
    then have B: "(2::nat) ^ bitlen M * 2 ^ nat (E - e1) \<le> 2 ^ 53"
      by (simp only: power_add)
    have A: "M * 2 ^ nat (E - e1) < 2 ^ bitlen M * 2 ^ nat (E - e1)"
      using bitlen_bound [of M] by simp
    from A B have "M * 2 ^ nat (E - e1) < 2 ^ 53" by (rule less_le_trans)
    then have "M * 2 ^ nat (E - e1) \<le> 2 ^ 53" by simp
    from pack_small [OF this e1_970, of s] show ?thesis using True by (simp add: round_at_def)
  next
    case False
    define d where "d = nat (e1 - E)"
    have "bitlen M \<le> 53 + d" using False e1_ge by (simp add: d_def)
    then have "(2::nat) ^ bitlen M \<le> 2 ^ (53 + d)" by (intro power_increasing) simp_all
    then have "(2::nat) ^ bitlen M \<le> 2 ^ 53 * 2 ^ d" by (simp only: power_add)
    with bitlen_bound [of M] have "M < 2 ^ 53 * 2 ^ d" by (rule less_le_trans)
    then have "M div 2 ^ d < 2 ^ 53" by (simp add: less_mult_imp_div_less)
    then have "round_even (M div 2 ^ d) (M mod 2 ^ d) (2 ^ (d - 1)) \<le> 2 ^ 53"
      using round_even_le [of "M div 2 ^ d" "M mod 2 ^ d" "2 ^ (d - 1)"] by simp
    from pack_small [OF this e1_970, of s] show ?thesis
      using False by (simp add: round_at_def round_shift_def d_def)
  qed
  then show ?thesis using rf e1_le by fastforce
qed

lemma abs_signed_value: "\<bar>signed_value s m * 2 ^ k\<bar> = int m * 2 ^ k"
  by (simp add: signed_value_def abs_mult)

lemma magnitude_belowE:
  assumes "magnitude_below K x"
  obtains s m e where "x = Finite s m e" "wf_float64 (Finite s m e)" "e + int (bitlen m) \<le> K"
  using assms by (cases x) (auto simp: magnitude_below_def)

lemma bitlen_lower: "0 < m \<Longrightarrow> 2 ^ (bitlen m - 1) \<le> m"
proof (induction m rule: less_induct)
  case (less m)
  show ?case
  proof (cases "m div 2 = 0")
    case True
    with less.prems have "m = 1" by (cases m) auto
    then show ?thesis by (simp add: bitlen_pos)
  next
    case False
    then have pos: "0 < m div 2" by simp
    have "m div 2 < m" using less.prems by simp
    from less.IH [OF this pos] have "2 ^ (bitlen (m div 2) - 1) \<le> m div 2" .
    then have "2 * 2 ^ (bitlen (m div 2) - 1) \<le> m" by linarith
    moreover have "0 < bitlen (m div 2)" using pos by (simp add: bitlen_pos)
    then have "bitlen m - 1 = Suc (bitlen (m div 2) - 1)"
      using less.prems by (simp add: bitlen_pos)
    ultimately show ?thesis by simp
  qed
qed

lemma pack_wf:
  assumes "m \<le> 2 ^ 53" "- 1074 \<le> e" "2 ^ 52 \<le> m \<or> e = - 1074"
  shows "pack s m e = Infinity s \<or>
         (\<exists>m' e'. pack s m e = Finite s m' e' \<and> wf_float64 (Finite s m' e') \<and> e \<le> e' \<and>
            (2 ^ 52 \<le> m \<longrightarrow> 2 ^ 52 \<le> m'))"
proof (cases "m = 2 ^ 53")
  case True
  then show ?thesis using assms(2) by (simp add: pack_def pack_exp_def wf_float64_def)
next
  case False
  with assms(1) have "m < 2 ^ 53" by simp
  then show ?thesis using assms(2,3) False
    by (auto simp: pack_def pack_exp_def wf_float64_def)
qed

lemma round_float_wf:
  assumes "0 < M"
  shows "round_float s M E = Infinity s \<or>
         (\<exists>m e. round_float s M E = Finite s m e \<and> wf_float64 (Finite s m e) \<and>
            max (E + int (bitlen M) - 53) (- 1074) \<le> e \<and>
            (- 1074 \<le> E + int (bitlen M) - 53 \<longrightarrow> 2 ^ 52 \<le> m))"
proof -
  define b where "b = bitlen M"
  define e1 where "e1 = max (E + int b - 53) (- 1074)"
  have bpos: "0 < b" using assms by (simp add: b_def bitlen_pos)
  have up: "M < 2 ^ b" unfolding b_def by (rule bitlen_bound)
  have lo: "2 ^ (b - 1) \<le> M" unfolding b_def using assms by (rule bitlen_lower)
  have rf: "round_float s M E = round_at s M E e1"
    using assms by (simp add: round_float_def e1_def b_def)
  have e1_ge: "- 1074 \<le> e1" by (simp add: e1_def)
  have ge1: "E + int b - 53 \<le> e1" by (simp add: e1_def)
  have goal: "pack s m e1 = Infinity s \<or>
         (\<exists>m' e'. pack s m e1 = Finite s m' e' \<and> wf_float64 (Finite s m' e') \<and> e1 \<le> e' \<and>
            (- 1074 \<le> E + int b - 53 \<longrightarrow> 2 ^ 52 \<le> m'))"
    if m: "m \<le> 2 ^ 53" "- 1074 \<le> E + int b - 53 \<longrightarrow> 2 ^ 52 \<le> m" for m
  proof -
    have "2 ^ 52 \<le> m \<or> e1 = - 1074" using m(2) by (auto simp: e1_def)
    from pack_wf [OF m(1) e1_ge this, of s] show ?thesis using m(2) by auto
  qed
  have "round_at s M E e1 = Infinity s \<or>
         (\<exists>m e. round_at s M E e1 = Finite s m e \<and> wf_float64 (Finite s m e) \<and> e1 \<le> e \<and>
            (- 1074 \<le> E + int b - 53 \<longrightarrow> 2 ^ 52 \<le> m))"
  proof (cases "e1 \<le> E")
    case True
    define k where "k = nat (E - e1)"
    have "b + k \<le> 53" using True ge1 by (simp add: k_def)
    then have "(2::nat) ^ (b + k) \<le> 2 ^ 53" by (intro power_increasing) simp_all
    then have B: "(2::nat) ^ b * 2 ^ k \<le> 2 ^ 53" by (simp only: power_add)
    have "M * 2 ^ k < 2 ^ b * 2 ^ k" using up by simp
    with B have m1: "M * 2 ^ k \<le> 2 ^ 53" by linarith
    have m2: "- 1074 \<le> E + int b - 53 \<longrightarrow> 2 ^ 52 \<le> M * 2 ^ k"
    proof
      assume "- 1074 \<le> E + int b - 53"
      then have "e1 = E + int b - 53" by (simp add: e1_def)
      then have "b - 1 + k = 52" using True bpos by (simp add: k_def)
      then have "(2::nat) ^ 52 = 2 ^ (b - 1) * 2 ^ k" by (simp add: power_add [symmetric])
      also have "\<dots> \<le> M * 2 ^ k" using lo by simp
      finally show "2 ^ 52 \<le> M * 2 ^ k" .
    qed
    from goal [OF m1 m2] show ?thesis using True by (simp add: round_at_def k_def)
  next
    case False
    define d where "d = nat (e1 - E)"
    have dpos: "0 < d" using False by (simp add: d_def)
    have "b \<le> 53 + d" using False ge1 by (simp add: d_def)
    then have "(2::nat) ^ b \<le> 2 ^ (53 + d)" by (intro power_increasing) simp_all
    then have "(2::nat) ^ b \<le> 2 ^ 53 * 2 ^ d" by (simp only: power_add)
    with up have "M < 2 ^ 53 * 2 ^ d" by (rule less_le_trans)
    then have q: "M div 2 ^ d < 2 ^ 53" by (simp add: less_mult_imp_div_less)
    let ?q' = "round_even (M div 2 ^ d) (M mod 2 ^ d) (2 ^ (d - 1))"
    have m1: "?q' \<le> 2 ^ 53"
      using q round_even_le [of "M div 2 ^ d" "M mod 2 ^ d" "2 ^ (d - 1)"] by simp
    have ge: "M div 2 ^ d \<le> ?q'" by (simp add: round_even_def)
    have m2: "- 1074 \<le> E + int b - 53 \<longrightarrow> 2 ^ 52 \<le> ?q'"
    proof
      assume "- 1074 \<le> E + int b - 53"
      then have "e1 = E + int b - 53" by (simp add: e1_def)
      then have "b - 1 = 52 + d" using False bpos by (simp add: d_def)
      then have "(2::nat) ^ 52 * 2 ^ d \<le> M" using lo by (simp add: power_add)
      then have "2 ^ 52 \<le> M div 2 ^ d" by (simp add: less_eq_div_iff_mult_less_eq)
      with ge show "2 ^ 52 \<le> ?q'" by simp
    qed
    from goal [OF m1 m2] show ?thesis
      using False by (simp add: round_at_def round_shift_def d_def)
  qed
  then show ?thesis unfolding rf e1_def b_def .
qed

lemma magnitude_below_mono: "magnitude_below K x \<Longrightarrow> K \<le> K' \<Longrightarrow> magnitude_below K' x"
  by (cases x) (auto simp: magnitude_below_def)

lemma magnitude_below_finite: "magnitude_below K x \<Longrightarrow> is_finite x"
  by (cases x) (auto simp: magnitude_below_def is_finite_def)

lemma round_float_magnitude:
  assumes "M = 0 \<or> E + int (bitlen M) \<le> K" "K \<le> 1023" "0 \<le> K"
  shows "magnitude_below (K + 1) (round_float s M E)"
proof (cases "M = 0")
  case True
  then show ?thesis using assms(3)
    by (simp add: round_float_def magnitude_below_def wf_float64_def)
next
  case False
  from round_float_small [OF assms(1,2), of s] obtain m e where
    r: "round_float s M E = Finite s m e" "m < 2 ^ 53" "e \<le> max (K - 52) (- 1073)"
    by blast
  from round_float_wf [of M s E] False r(1) have wf: "wf_float64 (Finite s m e)" by auto
  have "bitlen m \<le> 53" using r(2) by (rule bitlen_le)
  then have "e + int (bitlen m) \<le> K + 1" using r(3) assms(3) by simp
  with wf r(1) show ?thesis by (simp add: magnitude_below_def)
qed

lemma fmul_magnitude:
  assumes "magnitude_below K1 x" "magnitude_below K2 y" "0 \<le> K1 + K2" "K1 + K2 \<le> 1023"
  shows "magnitude_below (K1 + K2 + 1) (fmul x y)"
proof -
  from assms(1) obtain s1 m1 e1 where x: "x = Finite s1 m1 e1" "e1 + int (bitlen m1) \<le> K1"
    by (rule magnitude_belowE)
  from assms(2) obtain s2 m2 e2 where y: "y = Finite s2 m2 e2" "e2 + int (bitlen m2) \<le> K2"
    by (rule magnitude_belowE)
  have "bitlen (m1 * m2) \<le> bitlen m1 + bitlen m2" by (rule bitlen_mult_le)
  then have "e1 + e2 + int (bitlen (m1 * m2)) \<le> K1 + K2" using x(2) y(2) by simp
  then have "m1 * m2 = 0 \<or> e1 + e2 + int (bitlen (m1 * m2)) \<le> K1 + K2" by simp
  from round_float_magnitude [OF this assms(4,3), of "s1 \<noteq> s2"] show ?thesis
    by (simp add: x y fmul.simps)
qed

lemma fadd_magnitude:
  assumes "magnitude_below K x" "magnitude_below K y" "0 \<le> K" "K \<le> 1022"
  shows "magnitude_below (K + 2) (fadd x y)"
proof -
  from assms(1) obtain s1 m1 e1 where x: "x = Finite s1 m1 e1" "e1 + int (bitlen m1) \<le> K"
    by (rule magnitude_belowE)
  from assms(2) obtain s2 m2 e2 where y: "y = Finite s2 m2 e2" "e2 + int (bitlen m2) \<le> K"
    by (rule magnitude_belowE)
  define e where "e = min e1 e2"
  define v where "v = signed_value s1 m1 * 2 ^ nat (e1 - e) + signed_value s2 m2 * 2 ^ nat (e2 - e)"
  have sum: "fadd x y = round_sum (s1 \<and> s2) e v"
    by (simp add: x y fadd.simps e_def v_def)
  show ?thesis
  proof (cases "v = 0")
    case True
    then show ?thesis using sum assms(3)
      by (simp add: round_sum_def magnitude_below_def wf_float64_def)
  next
    case False
    have part: "m * 2 ^ nat (ex - e) < 2 ^ nat (K - e)"
      if "ex + int (bitlen m) \<le> K" "e \<le> ex" for m ex
    proof -
      have "bitlen m + nat (ex - e) \<le> nat (K - e)" using that by simp
      then have "(2::nat) ^ (bitlen m + nat (ex - e)) \<le> 2 ^ nat (K - e)"
        by (intro power_increasing) simp_all
      then have B: "(2::nat) ^ bitlen m * 2 ^ nat (ex - e) \<le> 2 ^ nat (K - e)"
        by (simp only: power_add)
      have A: "m * 2 ^ nat (ex - e) < 2 ^ bitlen m * 2 ^ nat (ex - e)"
        using bitlen_bound [of m] by simp
      from A B show ?thesis by (rule less_le_trans)
    qed
    have p1: "m1 * 2 ^ nat (e1 - e) < 2 ^ nat (K - e)"
      using x(2) by (intro part) (simp_all add: e_def)
    have p2: "m2 * 2 ^ nat (e2 - e) < 2 ^ nat (K - e)"
      using y(2) by (intro part) (simp_all add: e_def)
    have "\<bar>v\<bar> \<le> \<bar>signed_value s1 m1 * 2 ^ nat (e1 - e)\<bar> + \<bar>signed_value s2 m2 * 2 ^ nat (e2 - e)\<bar>"
      unfolding v_def by (rule abs_triangle_ineq)
    then have "\<bar>v\<bar> \<le> int (m1 * 2 ^ nat (e1 - e) + m2 * 2 ^ nat (e2 - e))"
      by (simp add: abs_signed_value)
    then have "nat \<bar>v\<bar> \<le> m1 * 2 ^ nat (e1 - e) + m2 * 2 ^ nat (e2 - e)"
      by linarith
    with p1 p2 have "nat \<bar>v\<bar> < 2 ^ Suc (nat (K - e))" by simp
    then have "bitlen (nat \<bar>v\<bar>) \<le> Suc (nat (K - e))" by (rule bitlen_le)
    moreover have "e \<le> K" using x(2) by (simp add: e_def)
    ultimately have "e + int (bitlen (nat \<bar>v\<bar>)) \<le> K + 1" by simp
    then have "nat \<bar>v\<bar> = 0 \<or> e + int (bitlen (nat \<bar>v\<bar>)) \<le> K + 1" by simp
    from round_float_magnitude [OF this, of "v < 0"] assms(3,4)
    have "magnitude_below (K + 1 + 1) (round_float (v < 0) (nat \<bar>v\<bar>) e)" by simp
    moreover have "K + 1 + 1 = K + 2" by simp
    ultimately show ?thesis using sum False by (simp only: round_sum_def if_False)
  qed
qed

lemma fneg_magnitude: "magnitude_below K x \<Longrightarrow> magnitude_below K (fneg x)"
  by (cases x) (auto simp: magnitude_below_def fneg_def wf_float64_def)

lemma fsub_magnitude:
  assumes "magnitude_below K x" "magnitude_below K y" "0 \<le> K" "K \<le> 1022"
  shows "magnitude_below (K + 2) (fsub x y)"
  unfolding fsub_def using assms by (intro fadd_magnitude fneg_magnitude)

lemma Mul_magnitude:
  assumes "components_below Kw w" "components_below Kb b" "0 \<le> Kw + Kb" "Kw + Kb \<le> 1021"
  shows "components_below (Kw + Kb + 3) (Mul w b)"
proof -
  have p: "magnitude_below (Kw + Kb + 1) (fmul x y)"
    if "magnitude_below Kw x" "magnitude_below Kb y" for x y
    using that assms(3,4) by (intro fmul_magnitude) simp_all
  have "magnitude_below (Kw + Kb + 1 + 2)
          (fsub (fmul (Real w) (Real b)) (fmul (Imag w) (Imag b)))"
    using assms by (intro fsub_magnitude p) (simp_all add: components_below_def)
  moreover have "magnitude_below (Kw + Kb + 1 + 2)
          (fadd (fmul (Real w) (Imag b)) (fmul (Imag w) (Real b)))"
    using assms by (intro fadd_magnitude p) (simp_all add: components_below_def)
  moreover have "Kw + Kb + 1 + 2 = Kw + Kb + 3" by simp
  ultimately show ?thesis by (simp only: components_below_def Mul_def Complex.simps)
qed

lemma Add_magnitude:
  assumes "components_below K p" "components_below K q" "0 \<le> K" "K \<le> 1022"
  shows "components_below (K + 2) (Add p q)"
  using assms by (simp add: components_below_def Add_def fadd_magnitude)

lemma Sub_magnitude:
  assumes "components_below K p" "components_below K q" "0 \<le> K" "K \<le> 1022"
  shows "components_below (K + 2) (Sub p q)"
  using assms by (simp add: components_below_def Sub_def fsub_magnitude)

lemma components_below_mono: "components_below K c \<Longrightarrow> K \<le> K' \<Longrightarrow> components_below K' c"
  by (auto simp: components_below_def intro: magnitude_below_mono)

section \<open>Rounding errors as real numbers\<close>

text \<open>
  A rounding to nearest changes a real number \<open>x\<close> by at most \<open>|x| / 2^53\<close>, or by at most
  \<open>tiny\<close> in the subnormal range. A product of two Complex values takes six roundings, so
  that its modulus exceeds the product of the moduli by a factor of at most
  \<open>1 + 10 / 2^53\<close> (and \<open>8 * tiny\<close>); hence the powers \<open>wn^k\<close> of a twiddle base of modulus
  at most \<open>1 + 8 / 2^53\<close> have modulus at most \<open>1 + 32 * k / 2^53\<close>, which is below \<open>2\<close>
  for every \<open>k \<le> 2^47\<close>.
\<close>

lemma tiny_nonneg: "0 \<le> tiny"
  by (simp add: tiny_def)

lemma valof_Finite: "valof (Finite s m e) = (if s then - real m else real m) * 2 powi e"
  by (simp add: valof_def)

lemma abs_valof: "\<bar>valof (Finite s m e)\<bar> = real m * 2 powi e"
  by (simp add: valof_def abs_mult)

lemma pack_valof:
  assumes "pack s m e = Finite s' m' e'"
  shows "s' = s \<and> real m' * 2 powi e' = real m * 2 powi e"
proof (cases "m = 2 ^ 53")
  case True
  with assms have "s' = s" "m' = 2 ^ 52" "e' = e + 1"
    by (auto simp: pack_def pack_exp_def split: if_splits)
  moreover have "(2::real) powi (e + 1) = 2 powi e * 2" by (simp add: power_int_add)
  ultimately show ?thesis using True by simp
next
  case False
  with assms show ?thesis by (auto simp: pack_def pack_exp_def split: if_splits)
qed

lemma round_even_error:
  assumes "0 < d"
  shows "\<bar>real (round_even (M div 2 ^ d) (M mod 2 ^ d) (2 ^ (d - 1))) * 2 ^ d - real M\<bar> \<le> 2 ^ (d - 1)"
proof -
  define q r h where "q = M div 2 ^ d" and "r = M mod 2 ^ d" and "h = (2::nat) ^ (d - 1)"
  have d: "(2::nat) ^ d = 2 * h" using assms by (cases d) (simp_all add: h_def)
  have "M = q * 2 ^ d + r" unfolding q_def r_def by (rule div_mult_mod_eq [symmetric])
  then have M: "M = q * (2 * h) + r" by (simp only: d)
  have r: "r < 2 * h" unfolding r_def d [symmetric] by simp
  have rM: "real M = real q * (2 * real h) + real r" by (subst M) simp
  have rd: "(2::real) ^ d = 2 * real h"
    using d by (metis of_nat_numeral of_nat_power of_nat_mult)
  have rh: "(2::real) ^ (d - 1) = real h" by (simp add: h_def)
  show ?thesis
  proof (cases "h < r \<or> (r = h \<and> odd q)")
    case True
    then have "round_even q r h = q + 1" by (simp add: round_even_def)
    moreover from True have "real h \<le> real r" by auto
    moreover from r have "real r < 2 * real h" by (metis of_nat_less_iff of_nat_mult of_nat_numeral)
    ultimately show ?thesis
      unfolding q_def [symmetric] r_def [symmetric] h_def [symmetric] rh rd rM
      by (simp add: algebra_simps)
  next
    case False
    then have "round_even q r h = q" by (simp add: round_even_def)
    moreover from False have "real r \<le> real h" by auto
    ultimately show ?thesis
      unfolding q_def [symmetric] r_def [symmetric] h_def [symmetric] rh rd rM
      by (simp add: algebra_simps)
  qed
qed

lemma powi_two_add: "(2::real) powi (a + b) = 2 powi a * 2 powi b"
  by (simp add: power_int_add)

lemma powi_two_nat: "0 \<le> k \<Longrightarrow> (2::real) ^ nat k = 2 powi k"
  by (simp add: power_int_def)

lemma round_float_error:
  assumes "round_float s M E = Finite s' m e"
  shows "s' = s"
    and "\<bar>real m * 2 powi e - real M * 2 powi E\<bar> \<le> real M * 2 powi E / 2 ^ 53 + tiny"
proof -
  have nonneg: "0 \<le> real M * 2 powi E / 2 ^ 53" "(0::real) \<le> tiny"
    by (simp_all add: tiny_nonneg)
  have "s' = s \<and>
    \<bar>real m * 2 powi e - real M * 2 powi E\<bar> \<le> real M * 2 powi E / 2 ^ 53 + tiny"
  proof (cases "M = 0")
    case True
    with assms show ?thesis by (auto simp: round_float_def tiny_nonneg)
  next
    case False
    define b where "b = bitlen M"
    define e1 where "e1 = max (E + int b - 53) (- 1074)"
    have lo: "2 ^ (b - 1) \<le> M" unfolding b_def using False by (intro bitlen_lower) simp
    have bpos: "0 < b" using False by (simp add: b_def bitlen_pos)
    have rf: "round_at s M E e1 = Finite s' m e"
      using assms False by (simp add: round_float_def e1_def b_def)
    show ?thesis
    proof (cases "e1 \<le> E")
      case True
      define k where "k = nat (E - e1)"
      from rf True have "pack s (M * 2 ^ k) e1 = Finite s' m e" by (simp add: round_at_def k_def)
      from pack_valof [OF this] have s: "s' = s"
        and v: "real m * 2 powi e = real (M * 2 ^ k) * 2 powi e1" by simp_all
      have "(2::real) ^ k * 2 powi e1 = 2 powi (E - e1) * 2 powi e1"
        using True by (simp add: k_def powi_two_nat)
      also have "\<dots> = 2 powi E" by (simp flip: powi_two_add)
      finally have "real (M * 2 ^ k) * 2 powi e1 = real M * 2 powi E" by simp
      with v have "real m * 2 powi e - real M * 2 powi E = 0" by simp
      with s nonneg show ?thesis by (simp only: abs_zero) simp
    next
      case False
      define d where "d = nat (e1 - E)"
      have dpos: "0 < d" using False by (simp add: d_def)
      let ?q = "round_even (M div 2 ^ d) (M mod 2 ^ d) (2 ^ (d - 1))"
      from rf False have "pack s ?q e1 = Finite s' m e"
        by (simp add: round_at_def round_shift_def d_def)
      from pack_valof [OF this] have s: "s' = s"
        and v: "real m * 2 powi e = real ?q * 2 powi e1" by simp_all
      have e1: "(2::real) powi e1 = 2 ^ d * 2 powi E"
      proof -
        have "(2::real) ^ d * 2 powi E = 2 powi (e1 - E) * 2 powi E"
          using False by (simp add: d_def powi_two_nat)
        also have "\<dots> = 2 powi e1" by (simp flip: powi_two_add)
        finally show ?thesis by simp
      qed
      have "real m * 2 powi e - real M * 2 powi E = (real ?q * 2 ^ d - real M) * 2 powi E"
        by (simp add: v e1 algebra_simps)
      then have "\<bar>real m * 2 powi e - real M * 2 powi E\<bar> =
          \<bar>real ?q * 2 ^ d - real M\<bar> * 2 powi E"
        by (simp add: abs_mult)
      also have "\<dots> \<le> 2 ^ (d - 1) * 2 powi E"
        using round_even_error [OF dpos, of M] by (intro mult_right_mono) simp_all
      also have "\<dots> = 2 powi (e1 - 1)"
      proof -
        have "(2::real) ^ (d - 1) = 2 powi (e1 - E - 1)"
          using dpos powi_two_nat [of "e1 - E - 1"] False
          by (simp add: d_def nat_diff_distrib)
        then have "(2::real) ^ (d - 1) * 2 powi E = 2 powi (e1 - E - 1 + E)"
          by (simp only: powi_two_add)
        then show ?thesis by simp
      qed
      finally have err: "\<bar>real m * 2 powi e - real M * 2 powi E\<bar> \<le> 2 powi (e1 - 1)" .
      have "2 powi (e1 - 1) \<le> real M * 2 powi E / 2 ^ 53 + tiny"
      proof (cases "e1 = - 1074")
        case True
        then have "(2::real) powi (e1 - 1) = tiny" by (simp add: tiny_def)
        with nonneg show ?thesis by linarith
      next
        case False
        then have e1_eq: "e1 = E + int b - 53" by (simp add: e1_def split: if_splits)
        have "e1 - 1 = int (b - 1) + (E - 53)" using bpos by (simp add: e1_eq)
        then have "(2::real) powi (e1 - 1) = 2 powi (int (b - 1) + (E - 53))"
          by (rule arg_cong)
        also have "\<dots> = 2 ^ (b - 1) * 2 powi (E - 53)"
          by (simp only: powi_two_add power_int_of_nat)
        also have "\<dots> \<le> real M * 2 powi (E - 53)"
        proof (rule mult_right_mono)
          have "real (2 ^ (b - 1)) \<le> real M" using lo by (simp only: of_nat_le_iff)
          then show "(2::real) ^ (b - 1) \<le> real M" by simp
        qed simp
        also have "\<dots> = real M * 2 powi E / 2 ^ 53"
          by (simp add: power_int_diff)
        finally show ?thesis using nonneg by linarith
      qed
      with err s show ?thesis by linarith
    qed
  qed
  then show "s' = s"
    and "\<bar>real m * 2 powi e - real M * 2 powi E\<bar> \<le> real M * 2 powi E / 2 ^ 53 + tiny"
    by simp_all
qed


lemma valof_fneg: "valof (fneg x) = - valof x"
  by (cases x) (simp_all add: valof_def fneg_def)

lemma is_finite_fneg: "is_finite (fneg x) = is_finite x"
  by (cases x) (simp_all add: is_finite_def fneg_def)

lemma fmul_error:
  assumes "is_finite x" "is_finite y" "is_finite (fmul x y)"
  shows "\<bar>valof (fmul x y) - valof x * valof y\<bar> \<le> \<bar>valof x * valof y\<bar> / 2 ^ 53 + tiny"
proof -
  from assms(1) obtain s1 m1 e1 where x: "x = Finite s1 m1 e1" using is_finiteE by blast
  from assms(2) obtain s2 m2 e2 where y: "y = Finite s2 m2 e2" using is_finiteE by blast
  from assms(3) obtain s m e where r: "fmul x y = Finite s m e" using is_finiteE by blast
  then have rf: "round_float (s1 \<noteq> s2) (m1 * m2) (e1 + e2) = Finite s m e"
    by (simp add: x y fmul.simps)
  note err = round_float_error [OF rf]
  define X where "X = real (m1 * m2) * 2 powi (e1 + e2)"
  define R where "R = real m * 2 powi e"
  have X0: "0 \<le> X" by (simp add: X_def)
  have p: "valof x * valof y = (if s1 \<noteq> s2 then - X else X)"
    by (simp add: x y valof_def X_def powi_two_add)
  have v: "valof (fmul x y) = (if s1 \<noteq> s2 then - R else R)"
    using err(1) by (simp add: r valof_def R_def)
  have "\<bar>R - X\<bar> \<le> X / 2 ^ 53 + tiny" using err(2) by (simp only: X_def R_def)
  moreover have "\<bar>valof (fmul x y) - valof x * valof y\<bar> = \<bar>R - X\<bar>"
    unfolding p v by (cases "s1 \<noteq> s2") simp_all
  moreover have "\<bar>valof x * valof y\<bar> = X" unfolding p using X0 by (cases "s1 \<noteq> s2") simp_all
  ultimately show ?thesis by simp
qed

lemma signed_value_real:
  assumes "e \<le> e1"
  shows "real_of_int (signed_value s m * 2 ^ nat (e1 - e)) * 2 powi e = valof (Finite s m e1)"
proof -
  have "(2::real) ^ nat (e1 - e) * 2 powi e = 2 powi (e1 - e) * 2 powi e"
    using assms by (simp add: powi_two_nat)
  also have "\<dots> = 2 powi e1" by (simp flip: powi_two_add)
  finally have p: "(2::real) ^ nat (e1 - e) * 2 powi e = 2 powi e1" .
  have "real_of_int (signed_value s m * 2 ^ nat (e1 - e)) * 2 powi e =
      real_of_int (signed_value s m) * (2 ^ nat (e1 - e) * 2 powi e)"
    by simp
  also have "\<dots> = real_of_int (signed_value s m) * 2 powi e1" by (simp only: p)
  also have "\<dots> = valof (Finite s m e1)" by (simp add: signed_value_def valof_def)
  finally show ?thesis .
qed

lemma fadd_error:
  assumes "is_finite x" "is_finite y" "is_finite (fadd x y)"
  shows "\<bar>valof (fadd x y) - (valof x + valof y)\<bar> \<le> \<bar>valof x + valof y\<bar> / 2 ^ 53 + tiny"
proof -
  from assms(1) obtain s1 m1 e1 where x: "x = Finite s1 m1 e1" using is_finiteE by blast
  from assms(2) obtain s2 m2 e2 where y: "y = Finite s2 m2 e2" using is_finiteE by blast
  define e where "e = min e1 e2"
  define v where "v = signed_value s1 m1 * 2 ^ nat (e1 - e) + signed_value s2 m2 * 2 ^ nat (e2 - e)"
  have sum: "fadd x y = round_sum (s1 \<and> s2) e v"
    by (simp add: x y fadd.simps e_def v_def)
  have "real_of_int v * 2 powi e =
      real_of_int (signed_value s1 m1 * 2 ^ nat (e1 - e)) * 2 powi e +
      real_of_int (signed_value s2 m2 * 2 ^ nat (e2 - e)) * 2 powi e"
    unfolding v_def by (simp only: of_int_add distrib_right)
  also have "\<dots> = valof x + valof y"
    unfolding x y by (simp only: signed_value_real e_def min.cobounded1 min.cobounded2)
  finally have exact: "real_of_int v * 2 powi e = valof x + valof y" .
  show ?thesis
  proof (cases "v = 0")
    case True
    then have "valof (fadd x y) = 0" by (simp add: sum round_sum_def valof_def)
    moreover from True exact have "valof x + valof y = 0" by simp
    ultimately show ?thesis using tiny_nonneg by simp
  next
    case False
    from assms(3) obtain s m e' where r: "fadd x y = Finite s m e'" using is_finiteE by blast
    then have rf: "round_float (v < 0) (nat \<bar>v\<bar>) e = Finite s m e'"
      using False by (simp add: sum round_sum_def)
    note err = round_float_error [OF rf]
    define X where "X = real (nat \<bar>v\<bar>) * 2 powi e"
    define R where "R = real m * 2 powi e'"
    have X0: "0 \<le> X" by (simp add: X_def)
    have "real (nat \<bar>v\<bar>) = \<bar>real_of_int v\<bar>" by simp
    then have "real_of_int v = (if v < 0 then - real (nat \<bar>v\<bar>) else real (nat \<bar>v\<bar>))"
      by simp
    then have "real_of_int v * 2 powi e = (if v < 0 then - X else X)"
      unfolding X_def by (simp only: if_distrib [of "\<lambda>t. t * 2 powi e"] mult_minus_left)
    with exact have p: "valof x + valof y = (if v < 0 then - X else X)" by simp
    have vr: "valof (fadd x y) = (if v < 0 then - R else R)"
      using err(1) by (simp add: r valof_def R_def)
    have "\<bar>R - X\<bar> \<le> X / 2 ^ 53 + tiny" using err(2) by (simp only: X_def R_def)
    moreover have "\<bar>valof (fadd x y) - (valof x + valof y)\<bar> = \<bar>R - X\<bar>"
      unfolding p vr by (cases "v < 0") simp_all
    moreover have "\<bar>valof x + valof y\<bar> = X" unfolding p using X0 by (cases "v < 0") simp_all
    ultimately show ?thesis by simp
  qed
qed

lemma fsub_error:
  assumes "is_finite x" "is_finite y" "is_finite (fsub x y)"
  shows "\<bar>valof (fsub x y) - (valof x - valof y)\<bar> \<le> \<bar>valof x - valof y\<bar> / 2 ^ 53 + tiny"
  using fadd_error [of x "fneg y"] assms
  by (simp add: fsub_def is_finite_fneg valof_fneg)

lemma tiny_small: "tiny \<le> 1 / 2 ^ 60"
  by (simp add: tiny_def)

lemma difference_error:
  fixes X1 X2 p1 p2 r N :: real
  assumes "\<bar>p1 - X1\<bar> \<le> \<bar>X1\<bar> / 2 ^ 53 + tiny" "\<bar>p2 - X2\<bar> \<le> \<bar>X2\<bar> / 2 ^ 53 + tiny"
    "\<bar>r - (p1 - p2)\<bar> \<le> \<bar>p1 - p2\<bar> / 2 ^ 53 + tiny" "\<bar>X1\<bar> \<le> N" "\<bar>X2\<bar> \<le> N"
  shows "\<bar>r - (X1 - X2)\<bar> \<le> 5 * N / 2 ^ 53 + 4 * tiny"
proof -
  have t: "0 \<le> tiny" by (rule tiny_nonneg)
  have N: "0 \<le> N" using assms(4) by linarith
  have a: "\<bar>p1 - X1\<bar> \<le> N / 2 ^ 53 + tiny" "\<bar>p2 - X2\<bar> \<le> N / 2 ^ 53 + tiny"
    using assms(1,2,4,5) by simp_all
  have "\<bar>p1 - p2\<bar> \<le> \<bar>X1\<bar> + \<bar>X2\<bar> + \<bar>p1 - X1\<bar> + \<bar>p2 - X2\<bar>" by linarith
  then have b: "\<bar>p1 - p2\<bar> \<le> 2 * N + 2 * (N / 2 ^ 53) + 2 * tiny"
    using a assms(4,5) by linarith
  then have "\<bar>p1 - p2\<bar> \<le> 3 * N + 2 * tiny" using N by simp
  then have "\<bar>p1 - p2\<bar> / 2 ^ 53 \<le> (3 * N + 2 * tiny) / 2 ^ 53" by (simp add: divide_right_mono)
  also have "\<dots> \<le> 3 * N / 2 ^ 53 + tiny" using t by (simp add: add_divide_distrib)
  finally have c: "\<bar>r - (p1 - p2)\<bar> \<le> 3 * N / 2 ^ 53 + 2 * tiny" using assms(3) by linarith
  have "\<bar>r - (X1 - X2)\<bar> \<le> \<bar>r - (p1 - p2)\<bar> + \<bar>p1 - X1\<bar> + \<bar>p2 - X2\<bar>" by linarith
  with a c show ?thesis by linarith
qed


lemma sum_error:
  fixes X1 X2 p1 p2 r N :: real
  assumes "\<bar>p1 - X1\<bar> \<le> \<bar>X1\<bar> / 2 ^ 53 + tiny" "\<bar>p2 - X2\<bar> \<le> \<bar>X2\<bar> / 2 ^ 53 + tiny"
    "\<bar>r - (p1 + p2)\<bar> \<le> \<bar>p1 + p2\<bar> / 2 ^ 53 + tiny" "\<bar>X1\<bar> \<le> N" "\<bar>X2\<bar> \<le> N"
  shows "\<bar>r - (X1 + X2)\<bar> \<le> 5 * N / 2 ^ 53 + 4 * tiny"
  using difference_error [of p1 X1 "- p2" "- X2" r N] assms by (simp add: abs_minus_commute)

lemma product_bound:
  fixes a c A B :: real
  assumes "\<bar>a\<bar> \<le> A" "\<bar>c\<bar> \<le> B"
  shows "\<bar>a * c\<bar> \<le> A * B"
  unfolding abs_mult using assms by (intro mult_mono) simp_all

lemma Mul_error:
  assumes w: "components_below 1 w" and wn: "components_below 1 wn"
    and A: "\<bar>valof (Real w)\<bar> \<le> A" "\<bar>valof (Imag w)\<bar> \<le> A"
    and B: "\<bar>valof (Real wn)\<bar> \<le> B" "\<bar>valof (Imag wn)\<bar> \<le> B"
  shows "\<bar>valof (Real (Mul w wn)) -
           (valof (Real w) * valof (Real wn) - valof (Imag w) * valof (Imag wn))\<bar>
         \<le> 5 * (A * B) / 2 ^ 53 + 4 * tiny"
    and "\<bar>valof (Imag (Mul w wn)) -
           (valof (Real w) * valof (Imag wn) + valof (Imag w) * valof (Real wn))\<bar>
         \<le> 5 * (A * B) / 2 ^ 53 + 4 * tiny"
proof -
  have fw: "is_finite (Real w)" "is_finite (Imag w)" "is_finite (Real wn)" "is_finite (Imag wn)"
    using w wn by (auto simp: components_below_def intro: magnitude_below_finite)
  have m: "magnitude_below 3 (fmul x y)" if "magnitude_below 1 x" "magnitude_below 1 y" for x y
    using fmul_magnitude [OF that] by simp
  have m3: "magnitude_below 3 (fmul (Real w) (Real wn))" "magnitude_below 3 (fmul (Imag w) (Imag wn))"
    "magnitude_below 3 (fmul (Real w) (Imag wn))" "magnitude_below 3 (fmul (Imag w) (Real wn))"
    using w wn by (simp_all add: components_below_def m)
  note fp = m3 [THEN magnitude_below_finite]
  have "magnitude_below (3 + 2) (fsub (fmul (Real w) (Real wn)) (fmul (Imag w) (Imag wn)))"
    using m3(1,2) by (rule fsub_magnitude) simp_all
  then have fr: "is_finite (fsub (fmul (Real w) (Real wn)) (fmul (Imag w) (Imag wn)))"
    by (rule magnitude_below_finite)
  have "magnitude_below (3 + 2) (fadd (fmul (Real w) (Imag wn)) (fmul (Imag w) (Real wn)))"
    using m3(3,4) by (rule fadd_magnitude) simp_all
  then have fi: "is_finite (fadd (fmul (Real w) (Imag wn)) (fmul (Imag w) (Real wn)))"
    by (rule magnitude_below_finite)
  show "\<bar>valof (Real (Mul w wn)) -
           (valof (Real w) * valof (Real wn) - valof (Imag w) * valof (Imag wn))\<bar>
         \<le> 5 * (A * B) / 2 ^ 53 + 4 * tiny"
    unfolding Mul_def Complex.simps
    by (rule difference_error [OF fmul_error [OF fw(1) fw(3) fp(1)] fmul_error [OF fw(2) fw(4) fp(2)]
          fsub_error [OF fp(1) fp(2) fr] product_bound [OF A(1) B(1)] product_bound [OF A(2) B(2)]])
  show "\<bar>valof (Imag (Mul w wn)) -
           (valof (Real w) * valof (Imag wn) + valof (Imag w) * valof (Real wn))\<bar>
         \<le> 5 * (A * B) / 2 ^ 53 + 4 * tiny"
    unfolding Mul_def Complex.simps
    by (rule sum_error [OF fmul_error [OF fw(1) fw(4) fp(3)] fmul_error [OF fw(2) fw(3) fp(4)]
          fadd_error [OF fp(3) fp(4) fi] product_bound [OF A(1) B(2)] product_bound [OF A(2) B(1)]])
qed

lemma Mul_norm:
  assumes w: "components_below 1 w" and wn: "components_below 1 wn"
  shows "cmod (cval (Mul w wn)) \<le> cmod (cval w) * cmod (cval wn) * (1 + 10 / 2 ^ 53) + 8 * tiny"
proof -
  let ?A = "cmod (cval w)" and ?B = "cmod (cval wn)"
  let ?d = "cval (Mul w wn) - cval w * cval wn"
  have A: "\<bar>valof (Real w)\<bar> \<le> ?A" "\<bar>valof (Imag w)\<bar> \<le> ?A"
    using abs_Re_le_cmod [of "cval w"] abs_Im_le_cmod [of "cval w"] by (simp_all add: cval_def)
  have B: "\<bar>valof (Real wn)\<bar> \<le> ?B" "\<bar>valof (Imag wn)\<bar> \<le> ?B"
    using abs_Re_le_cmod [of "cval wn"] abs_Im_le_cmod [of "cval wn"] by (simp_all add: cval_def)
  note e = Mul_error [OF w wn A B]
  have "\<bar>Re ?d\<bar> \<le> 5 * (?A * ?B) / 2 ^ 53 + 4 * tiny" using e(1) by (simp add: cval_def)
  moreover have "\<bar>Im ?d\<bar> \<le> 5 * (?A * ?B) / 2 ^ 53 + 4 * tiny" using e(2) by (simp add: cval_def)
  moreover have "cmod ?d \<le> \<bar>Re ?d\<bar> + \<bar>Im ?d\<bar>" by (rule cmod_le)
  ultimately have d: "cmod ?d \<le> 10 * (?A * ?B) / 2 ^ 53 + 8 * tiny" by linarith
  have "cmod (cval (Mul w wn)) \<le> cmod (cval w * cval wn) + cmod ?d"
    by (rule norm_triangle_sub)
  also have "cmod (cval w * cval wn) = ?A * ?B" by (rule norm_mult)
  finally have "cmod (cval (Mul w wn)) \<le> ?A * ?B + (10 * (?A * ?B) / 2 ^ 53 + 8 * tiny)"
    using d by linarith
  then show ?thesis by (simp add: algebra_simps)
qed

lemma magnitude_below_valof:
  assumes "magnitude_below K x" "\<bar>valof x\<bar> < 2"
  shows "magnitude_below 1 x"
proof -
  from assms(1) obtain s m e where x: "x = Finite s m e" "wf_float64 (Finite s m e)"
    by (rule magnitude_belowE)
  show ?thesis
  proof (cases "m = 0")
    case True
    with x(2) have "e = - 1074" by (simp add: wf_Finite_iff)
    with True x show ?thesis by (simp add: magnitude_below_def)
  next
    case False
    then have lo: "2 ^ (bitlen m - 1) \<le> m" by (intro bitlen_lower) simp
    have bpos: "0 < bitlen m" using False by (simp add: bitlen_pos)
    have "e + int (bitlen m) \<le> 1"
    proof (rule ccontr)
      assume "\<not> e + int (bitlen m) \<le> 1"
      then have "1 \<le> int (bitlen m - 1) + e" using bpos by simp
      then have "(2::real) powi 1 \<le> 2 powi (int (bitlen m - 1) + e)"
        by (intro power_int_increasing) simp_all
      also have "\<dots> = 2 ^ (bitlen m - 1) * 2 powi e"
        by (simp only: powi_two_add power_int_of_nat)
      also have "\<dots> \<le> real m * 2 powi e"
      proof (rule mult_right_mono)
        have "real (2 ^ (bitlen m - 1)) \<le> real m" using lo by (simp only: of_nat_le_iff)
        then show "(2::real) ^ (bitlen m - 1) \<le> real m" by simp
      qed simp
      also have "\<dots> = \<bar>valof x\<bar>" by (simp add: x abs_valof)
      finally show False using assms(2) by simp
    qed
    with x show ?thesis by (simp add: magnitude_below_def)
  qed
qed

lemma components_below_cval:
  assumes "components_below K w" "cmod (cval w) < 2"
  shows "components_below 1 w"
proof -
  have "\<bar>valof (Real w)\<bar> \<le> cmod (cval w)" "\<bar>valof (Imag w)\<bar> \<le> cmod (cval w)"
    using abs_Re_le_cmod [of "cval w"] abs_Im_le_cmod [of "cval w"] by (simp_all add: cval_def)
  with assms(2) have "\<bar>valof (Real w)\<bar> < 2" "\<bar>valof (Imag w)\<bar> < 2" by linarith+
  with assms(1) show ?thesis by (auto simp: components_below_def intro: magnitude_below_valof)
qed

lemma twiddle_power_norm:
  assumes wn: "components_below 1 wn" and B: "cmod (cval wn) \<le> 1 + 8 / 2 ^ 53"
  shows "k \<le> 2 ^ 47 \<Longrightarrow>
         components_below 1 (twiddle_power wn k) \<and>
         cmod (cval (twiddle_power wn k)) \<le> 1 + real k * (32 / 2 ^ 53)"
proof (induction k)
  case 0
  have "bitlen (2 ^ 52) = 53" using bitlen_eq [of 52 "2 ^ 52"] by simp
  then have "components_below 1 (twiddle_power wn 0)"
    by (simp add: components_below_def magnitude_below_def wf_float64_def f_one_def f_zero_def)
  moreover have "cval (twiddle_power wn 0) = 1"
    by (simp add: cval_def valof_def f_one_def f_zero_def complex_eq_iff)
  ultimately show ?case by simp
next
  case (Suc k)
  let ?w = "twiddle_power wn k"
  let ?A = "cmod (cval ?w)"
  from Suc have w: "components_below 1 ?w" and A: "?A \<le> 1 + real k * (32 / 2 ^ 53)"
    by simp_all
  have "real (Suc k) \<le> real (2 ^ 47)" using Suc.prems by (simp only: of_nat_le_iff)
  then have k: "real k + 1 \<le> 2 ^ 47" by simp
  then have "real k * (32 / 2 ^ 53) \<le> 2 ^ 47 * (32 / 2 ^ 53)" by (intro mult_right_mono) simp_all
  then have A2: "?A \<le> 3 / 2" using A by simp
  have A0: "0 \<le> ?A" by simp
  have "?A * cmod (cval wn) \<le> ?A * (1 + 8 / 2 ^ 53)" using B A0 by (rule mult_left_mono)
  then have "?A * cmod (cval wn) * (1 + 10 / 2 ^ 53) \<le> ?A * (1 + 8 / 2 ^ 53) * (1 + 10 / 2 ^ 53)"
    by (rule mult_right_mono) simp
  also have "\<dots> = ?A * ((1 + 8 / 2 ^ 53) * (1 + 10 / 2 ^ 53))" by simp
  also have "\<dots> \<le> ?A * (1 + 19 / 2 ^ 53)" using A0 by (intro mult_left_mono) simp_all
  finally have "cmod (cval (Mul ?w wn)) \<le> ?A * (1 + 19 / 2 ^ 53) + 8 * tiny"
    using Mul_norm [OF w wn] by linarith
  then have "cmod (cval (Mul ?w wn)) \<le> ?A + ?A * (19 / 2 ^ 53) + 8 * tiny"
    by (simp add: algebra_simps)
  moreover have "?A * (19 / 2 ^ 53) \<le> 3 / 2 * (19 / 2 ^ 53)" using A2 by (intro mult_right_mono) simp_all
  ultimately have "cmod (cval (Mul ?w wn)) \<le> ?A + 29 / 2 ^ 53 + 8 * tiny" by simp
  with tiny_small have n: "cmod (cval (Mul ?w wn)) \<le> ?A + 32 / 2 ^ 53" by simp
  have "real (Suc k) * (32 / 2 ^ 53) = real k * (32 / 2 ^ 53) + 32 / 2 ^ 53"
    by (simp add: algebra_simps)
  with A n have N: "cmod (cval (Mul ?w wn)) \<le> 1 + real (Suc k) * (32 / 2 ^ 53)"
    by linarith
  have "real (Suc k) * (32 / 2 ^ 53) \<le> 2 ^ 47 * (32 / 2 ^ 53)"
    using k by (intro mult_right_mono) simp_all
  also have "\<dots> = 1 / 2" by simp
  finally have "real (Suc k) * (32 / 2 ^ 53) \<le> 1 / 2" .
  with N have lt: "cmod (cval (Mul ?w wn)) < 2" by linarith
  have "components_below (1 + 1 + 3) (Mul ?w wn)" using w wn by (rule Mul_magnitude) simp_all
  from components_below_cval [OF this lt] N show ?case by simp
qed

lemma finite_wf_magnitude:
  assumes "is_finite x" "wf_float64 x"
  shows "\<exists>K. magnitude_below K x"
proof -
  from assms(1) obtain s m e where "x = Finite s m e" using is_finiteE by blast
  with assms(2) have "magnitude_below (e + int (bitlen m)) x" by (simp add: magnitude_below_def)
  then show ?thesis ..
qed

lemma near_unit_twiddle:
  assumes "near_unit c s"
  shows "components_below 1 \<lparr>Real = c, Imag = s\<rparr>"
    and "cmod (cval \<lparr>Real = c, Imag = s\<rparr>) \<le> 1 + 8 / 2 ^ 53"
proof -
  let ?wn = "\<lparr>Real = c, Imag = s\<rparr>"
  have "(valof c)\<^sup>2 + (valof s)\<^sup>2 \<le> 1 + 1 / 2 ^ 49" using assms by (simp add: near_unit_def)
  also have "\<dots> \<le> (1 + 8 / 2 ^ 53)\<^sup>2" by (simp add: power2_eq_square)
  finally have "sqrt ((valof c)\<^sup>2 + (valof s)\<^sup>2) \<le> 1 + 8 / 2 ^ 53"
    by (intro real_le_lsqrt) simp_all
  then show n: "cmod (cval ?wn) \<le> 1 + 8 / 2 ^ 53" by (simp add: cval_def cmod_def)
  then have lt: "cmod (cval ?wn) < 2" by simp
  from assms obtain Kc Ks where "magnitude_below Kc c" "magnitude_below Ks s"
    using finite_wf_magnitude unfolding near_unit_def by blast
  then have "components_below (max Kc Ks) ?wn"
    by (simp add: components_below_def magnitude_below_mono)
  from components_below_cval [OF this lt] show "components_below 1 ?wn" .
qed

section \<open>The normalisation factor is at most one\<close>

lemma isqrt_upper: "n < (isqrt n + 1) * (isqrt n + 1)"
proof (induction n rule: isqrt.induct)
  case (1 n)
  show ?case
  proof (cases "n < 2")
    case True
    then show ?thesis by (subst isqrt.simps, subst isqrt.simps) auto
  next
    case False
    define t where "t = isqrt (n div 4)"
    from 1 [OF False] have "n div 4 < (t + 1) * (t + 1)" by (simp add: t_def)
    then have "n div 4 + 1 \<le> (t + 1) * (t + 1)" by simp
    then have "4 * (n div 4 + 1) \<le> 4 * ((t + 1) * (t + 1))" by (rule mult_le_mono2)
    moreover have "n < 4 * (n div 4 + 1)" by simp
    ultimately have up: "n < (2 * t + 2) * (2 * t + 2)" by (simp add: algebra_simps)
    have "isqrt n = isqrt_step n (2 * t)" using False by (subst isqrt.simps) (simp add: t_def)
    then show ?thesis using up by (auto simp: isqrt_step_def)
  qed
qed

lemma isqrt_lower: "2 ^ k * 2 ^ k \<le> n \<Longrightarrow> 2 ^ k \<le> isqrt n"
proof (rule ccontr)
  assume a: "2 ^ k * 2 ^ k \<le> n" and "\<not> 2 ^ k \<le> isqrt n"
  then have "isqrt n + 1 \<le> 2 ^ k" by simp
  then have "(isqrt n + 1) * (isqrt n + 1) \<le> 2 ^ k * 2 ^ k" by (intro mult_le_mono)
  with isqrt_upper [of n] a show False by simp
qed

lemma round_float_at_least_one:
  assumes "0 < M" "1 \<le> E + int (bitlen M)"
  shows "at_least_one (round_float False M E)"
  using round_float_wf [OF assms(1), of False E] assms(2)
  by (auto simp: at_least_one_def)

lemma float64_of_nat_at_least_one: "0 < n \<Longrightarrow> at_least_one (float64_of_nat n)"
  unfolding float64_of_nat_def
  by (intro round_float_at_least_one) (simp_all add: bitlen_pos)

lemma Sqrt_at_least_one:
  assumes "at_least_one y"
  shows "at_least_one (Sqrt y)"
proof (cases "y = Infinity False")
  case True
  then show ?thesis by (simp add: Sqrt.simps at_least_one_def)
next
  case False
  with assms obtain m e where y: "y = Finite False m e" "2 ^ 52 \<le> m" "- 52 \<le> e"
    by (cases y) (auto simp: at_least_one_def)
  define k where "k = nat (e - sqrt_exp e)"
  define M0 where "M0 = m * 2 ^ k"
  define t where "t = isqrt M0"
  have k: "120 \<le> k" by (simp add: k_def sqrt_exp_def)
  have E: "- 87 \<le> sqrt_exp e div 2 - 1" using y(3) by (simp add: sqrt_exp_def) presburger
  have "(2::nat) ^ 52 * 2 ^ 120 \<le> m * 2 ^ k"
    using y(2) k by (intro mult_le_mono power_increasing) simp_all
  then have "(2::nat) ^ 86 * 2 ^ 86 \<le> M0" by (simp add: M0_def)
  then have t: "2 ^ 86 \<le> t" unfolding t_def by (rule isqrt_lower)
  then have "2 ^ 87 \<le> root_sticky M0 t" by (simp add: root_sticky_def sticky_def)
  then have b: "87 < bitlen (root_sticky M0 t)" by (rule bitlen_gt)
  then have pos: "0 < root_sticky M0 t" by (cases "root_sticky M0 t = 0") simp_all
  have "1 \<le> sqrt_exp e div 2 - 1 + int (bitlen (root_sticky M0 t))" using E b by simp
  from round_float_at_least_one [OF pos this] have
    "at_least_one (round_float False (root_sticky M0 t) (sqrt_exp e div 2 - 1))" .
  moreover have "m \<noteq> 0" using y(2) by auto
  ultimately show ?thesis by (simp add: y(1) Sqrt.simps M0_def t_def k_def)
qed

lemma reciprocal_magnitude:
  assumes "at_least_one y"
  shows "magnitude_below 2 (fdiv f_one y)"
proof (cases "y = Infinity False")
  case True
  then show ?thesis
    by (simp add: f_one_def fdiv.simps magnitude_below_def wf_float64_def)
next
  case False
  with assms obtain m e where y: "y = Finite False m e" "2 ^ 52 \<le> m" "- 52 \<le> e"
    by (cases y) (auto simp: at_least_one_def)
  define q where "q = (2 ^ 52 * 2 ^ 116) div m"
  define M where "M = sticky q ((2 ^ 52 * 2 ^ 116) mod m = 0)"
  have m0: "m \<noteq> 0" using y(2) by auto
  have "q \<le> (2 ^ 52 * 2 ^ 116) div 2 ^ 52" unfolding q_def using y(2) by (intro div_le_mono2) simp_all
  then have "q \<le> 2 ^ 116" by simp
  then have "M < 2 ^ 118" by (simp add: M_def sticky_def)
  then have "bitlen M \<le> 118" by (rule bitlen_le)
  then have "- 52 - e - 117 + int (bitlen M) \<le> 1" using y(3) by simp
  then have "M = 0 \<or> - 52 - e - 117 + int (bitlen M) \<le> 1" by simp
  from round_float_magnitude [OF this, of False]
  have "magnitude_below 2 (round_float False M (- 52 - e - 117))" by simp
  then show ?thesis using m0 by (simp add: y(1) f_one_def fdiv.simps M_def q_def)
qed

lemma norm_factor_magnitude: "0 < n \<Longrightarrow> magnitude_below 2 (norm_factor n)"
  unfolding norm_factor_def
  by (intro reciprocal_magnitude Sqrt_at_least_one float64_of_nat_at_least_one)

section \<open>The growth of the transform\<close>

lemma butterfly_magnitude:
  assumes "components_below 1 w" "components_below Kb p" "components_below Kb b" "0 \<le> Kb"
    "Kb + 6 \<le> 1021"
  shows "components_below (Kb + 6) (Add p (Mul w b))"
    and "components_below (Kb + 6) (Sub p (Mul w b))"
proof -
  let ?q = "Mul w b"
  have "components_below (1 + Kb + 3) ?q"
    using assms by (intro Mul_magnitude) simp_all
  then have q: "components_below (Kb + 4) ?q"
    by (rule components_below_mono) simp
  have p: "components_below (Kb + 4) p"
    using assms(2) by (rule components_below_mono) simp
  have "components_below (Kb + 4 + 2) (Add p ?q)"
    using p q assms(4,5) by (intro Add_magnitude) simp_all
  then show "components_below (Kb + 6) (Add p ?q)"
    by (rule components_below_mono) simp
  have "components_below (Kb + 4 + 2) (Sub p ?q)"
    using p q assms(4,5) by (intro Sub_magnitude) simp_all
  then show "components_below (Kb + 6) (Sub p ?q)"
    by (rule components_below_mono) simp
qed

lemma growth_step: "2 \<le> n \<Longrightarrow> growth n = growth (n div 2) + 6"
  by (subst growth.simps) simp

lemma growth_one: "growth (Suc 0) = 0"
  by (subst growth.simps) simp

lemma set_evens: "set (evens arr) \<subseteq> set arr"
  by (auto simp: evens_def)

lemma set_odds: "set (odds arr) \<subseteq> set arr"
  by (auto simp: odds_def)

lemma fft_magnitude:
  "arr \<noteq> [] \<Longrightarrow> length arr \<le> 2 ^ 48 \<Longrightarrow>
   \<forall>j. 2 \<le> length arr div 2 ^ j \<longrightarrow>
     components_below 1 (twiddle L (length arr div 2 ^ j)) \<and>
     cmod (cval (twiddle L (length arr div 2 ^ j))) \<le> 1 + 8 / 2 ^ 53 \<Longrightarrow>
   \<forall>c\<in>set arr. components_below K c \<Longrightarrow> 0 \<le> K \<Longrightarrow>
   K + int (growth (length arr)) \<le> 1021 \<Longrightarrow>
   \<exists>out. fft L arr = Some (Inr out) \<and> length out = length arr \<and>
     (\<forall>c\<in>set out. components_below (K + int (growth (length arr))) c)"
proof (induction "length arr" arbitrary: arr rule: less_induct)
  case less
  let ?n = "length arr" and ?h = "length arr div 2"
  show ?case
  proof (cases "?n = 1")
    case True
    then have "fft L arr = Some (Inr arr)" by (subst fft_unfold) simp
    moreover have "\<forall>c\<in>set arr. components_below (K + int (growth ?n)) c"
      using less.prems(4) True by (simp add: growth_one)
    ultimately show ?thesis by simp
  next
    case False
    with less.prems(1) have n: "2 \<le> ?n" by (cases arr) (auto simp: Suc_le_eq)
    have g: "growth ?n = growth ?h + 6" using n by (rule growth_step)
    define Kb where "Kb = K + int (growth ?h)"
    have Kb: "0 \<le> Kb" "Kb + 6 \<le> 1021" "Kb + 6 = K + int (growth ?n)"
      "K \<le> K + int (growth ?n)"
      using less.prems(5,6) g by (simp_all add: Kb_def)
    have ne: "evens arr \<noteq> []" "odds arr \<noteq> []" using n by (auto simp: evens_def odds_def)
    have len: "length (evens arr) < ?n" "length (odds arr) < ?n" using n by simp_all
    have half: "?h div 2 ^ j = ?n div 2 ^ Suc j" for j
      by (simp add: div_mult2_eq)
    have lib_half: "\<forall>j. 2 \<le> ?h div 2 ^ j \<longrightarrow>
        components_below 1 (twiddle L (?h div 2 ^ j)) \<and>
        cmod (cval (twiddle L (?h div 2 ^ j))) \<le> 1 + 8 / 2 ^ 53"
      unfolding half using less.prems(3) by blast
    have hle: "?h \<le> 2 ^ 48" using less.prems(2) by simp
    have Kh: "K + int (growth ?h) \<le> 1021" using Kb(2) by (simp add: Kb_def)
    have "\<exists>out. fft L (evens arr) = Some (Inr out) \<and> length out = length (evens arr) \<and>
           (\<forall>c\<in>set out. components_below (K + int (growth (length (evens arr)))) c)"
    proof (rule less.hyps [OF len(1) ne(1)])
      show "length (evens arr) \<le> 2 ^ 48" using hle by simp
      show "\<forall>j. 2 \<le> length (evens arr) div 2 ^ j \<longrightarrow>
          components_below 1 (twiddle L (length (evens arr) div 2 ^ j)) \<and>
          cmod (cval (twiddle L (length (evens arr) div 2 ^ j))) \<le> 1 + 8 / 2 ^ 53"
        using lib_half by simp
      show "\<forall>c\<in>set (evens arr). components_below K c"
        using less.prems(4) set_evens [of arr] by blast
      show "0 \<le> K" by (rule less.prems(5))
      show "K + int (growth (length (evens arr))) \<le> 1021" using Kh by simp
    qed
    then obtain b0 where b0: "fft L (evens arr) = Some (Inr b0)" "length b0 = ?h"
      "\<forall>c\<in>set b0. components_below Kb c"
      by (auto simp: Kb_def)
    have "\<exists>out. fft L (odds arr) = Some (Inr out) \<and> length out = length (odds arr) \<and>
           (\<forall>c\<in>set out. components_below (K + int (growth (length (odds arr)))) c)"
    proof (rule less.hyps [OF len(2) ne(2)])
      show "length (odds arr) \<le> 2 ^ 48" using hle by simp
      show "\<forall>j. 2 \<le> length (odds arr) div 2 ^ j \<longrightarrow>
          components_below 1 (twiddle L (length (odds arr) div 2 ^ j)) \<and>
          cmod (cval (twiddle L (length (odds arr) div 2 ^ j))) \<le> 1 + 8 / 2 ^ 53"
        using lib_half by simp
      show "\<forall>c\<in>set (odds arr). components_below K c"
        using less.prems(4) set_odds [of arr] by blast
      show "0 \<le> K" by (rule less.prems(5))
      show "K + int (growth (length (odds arr))) \<le> 1021" using Kh by simp
    qed
    then obtain b1 where b1: "fft L (odds arr) = Some (Inr b1)" "length b1 = ?h"
      "\<forall>c\<in>set b1. components_below Kb c"
      by (auto simp: Kb_def)
    let ?wn = "twiddle L ?n"
    have "2 \<le> ?n div 2 ^ 0" using n by simp
    with less.prems(3) have "components_below 1 (twiddle L (?n div 2 ^ 0)) \<and>
        cmod (cval (twiddle L (?n div 2 ^ 0))) \<le> 1 + 8 / 2 ^ 53"
      by blast
    then have wn: "components_below 1 ?wn" "cmod (cval ?wn) \<le> 1 + 8 / 2 ^ 53" by simp_all
    have h47: "?h \<le> 2 ^ 47" using less.prems(2) by simp
    have w: "components_below 1 (twiddle_power ?wn i)" if "i < ?h" for i
    proof -
      from that h47 have "i \<le> 2 ^ 47" by simp
      from twiddle_power_norm [OF wn this] show ?thesis by simp
    qed
    from combine_loop_prefix [where wn = ?wn and arr = arr, OF b0(2) b1(2) refl order_refl]
    obtain res where
      r: "combine_loop ?wn ?n b0 b1 [0..<?h] (arr, twiddle_power ?wn 0) =
            Inr (res, twiddle_power ?wn ?h)"
         "length res = ?n"
         "\<forall>i<?h. res ! i = Add (b0 ! i) (Mul (twiddle_power ?wn i) (b1 ! i)) \<and>
             res ! (i + ?h) = Sub (b0 ! i) (Mul (twiddle_power ?wn i) (b1 ! i))"
         "\<forall>j<?n. (?h \<le> j \<and> j < ?h) \<or> ?h + ?h \<le> j \<longrightarrow> res ! j = arr ! j"
      by blast
    have "combine L arr b0 b1 = Inr res" using r(1) by (simp add: combine_def)
    then have fft: "fft L arr = Some (Inr res)"
      using b0(1) b1(1) False by (subst fft_unfold) simp
    have "components_below (K + int (growth ?n)) (res ! j)" if j: "j < ?n" for j
    proof -
      consider "j < ?h" | "?h \<le> j" "j < ?h + ?h" | "?h + ?h \<le> j" by linarith
      then show ?thesis
      proof cases
        case 1
        then have "components_below Kb (b0 ! j)" "components_below Kb (b1 ! j)"
          using b0(2,3) b1(2,3) by simp_all
        from butterfly_magnitude(1) [OF w [OF 1] this Kb(1,2)] r(3) 1
        have "components_below (Kb + 6) (res ! j)" by simp
        then show ?thesis by (simp only: Kb(3))
      next
        case 2
        define i where "i = j - ?h"
        have i: "i < ?h" "j = i + ?h" using 2 by (simp_all add: i_def)
        then have "components_below Kb (b0 ! i)" "components_below Kb (b1 ! i)"
          using b0(2,3) b1(2,3) by simp_all
        from butterfly_magnitude(2) [OF w [OF i(1)] this Kb(1,2)] r(3) i
        have "components_below (Kb + 6) (res ! j)" by simp
        then show ?thesis by (simp only: Kb(3))
      next
        case 3
        then have "res ! j = arr ! j" using r(4) j by simp
        moreover have "components_below K (arr ! j)" using less.prems(4) j by simp
        ultimately show ?thesis using Kb(4) by (simp add: components_below_mono)
      qed
    qed
    then have "\<forall>c\<in>set res. components_below (K + int (growth ?n)) c"
      using r(2) by (auto simp: in_set_conv_nth)
    with fft r(2) show ?thesis by simp
  qed
qed

lemma bench_angles:
  "fdiv neg_two_pi (float64_of_nat 2) = Finite True 7074237752028440 (- 51)"
  "fdiv neg_two_pi (float64_of_nat 4) = Finite True 7074237752028440 (- 52)"
  "fdiv neg_two_pi (float64_of_nat 8) = Finite True 7074237752028440 (- 53)"
  "fdiv neg_two_pi (float64_of_nat 16) = Finite True 7074237752028440 (- 54)"
  "fdiv neg_two_pi (float64_of_nat 32) = Finite True 7074237752028440 (- 55)"
  "fdiv neg_two_pi (float64_of_nat 64) = Finite True 7074237752028440 (- 56)"
  "fdiv neg_two_pi (float64_of_nat 128) = Finite True 7074237752028440 (- 57)"
  "fdiv neg_two_pi (float64_of_nat 256) = Finite True 7074237752028440 (- 58)"
  "fdiv neg_two_pi (float64_of_nat 512) = Finite True 7074237752028440 (- 59)"
  "fdiv neg_two_pi (float64_of_nat 1024) = Finite True 7074237752028440 (- 60)"
  "fdiv neg_two_pi (float64_of_nat 2048) = Finite True 7074237752028440 (- 61)"
  "fdiv neg_two_pi (float64_of_nat 4096) = Finite True 7074237752028440 (- 62)"
  "fdiv neg_two_pi (float64_of_nat 8192) = Finite True 7074237752028440 (- 63)"
  "fdiv neg_two_pi (float64_of_nat 16384) = Finite True 7074237752028440 (- 64)"
  "fdiv neg_two_pi (float64_of_nat 32768) = Finite True 7074237752028440 (- 65)"
  "fdiv neg_two_pi (float64_of_nat 65536) = Finite True 7074237752028440 (- 66)"
  "fdiv neg_two_pi (float64_of_nat 131072) = Finite True 7074237752028440 (- 67)"
  "fdiv neg_two_pi (float64_of_nat 262144) = Finite True 7074237752028440 (- 68)"
  "fdiv neg_two_pi (float64_of_nat 524288) = Finite True 7074237752028440 (- 69)"
  "fdiv neg_two_pi (float64_of_nat 1048576) = Finite True 7074237752028440 (- 70)"
  "fdiv neg_two_pi (float64_of_nat 2097152) = Finite True 7074237752028440 (- 71)"
  "fdiv neg_two_pi (float64_of_nat 4194304) = Finite True 7074237752028440 (- 72)"
  "fdiv neg_two_pi (float64_of_nat 8388608) = Finite True 7074237752028440 (- 73)"
  "fdiv neg_two_pi (float64_of_nat 16777216) = Finite True 7074237752028440 (- 74)"
  by (simp_all add: float_eval)

lemma bench_near_unit:
  "near_unit (Cos bench_lib (Finite True 7074237752028440 (- 51))) (Sin bench_lib (Finite True 7074237752028440 (- 51)))"
  "near_unit (Cos bench_lib (Finite True 7074237752028440 (- 52))) (Sin bench_lib (Finite True 7074237752028440 (- 52)))"
  "near_unit (Cos bench_lib (Finite True 7074237752028440 (- 53))) (Sin bench_lib (Finite True 7074237752028440 (- 53)))"
  "near_unit (Cos bench_lib (Finite True 7074237752028440 (- 54))) (Sin bench_lib (Finite True 7074237752028440 (- 54)))"
  "near_unit (Cos bench_lib (Finite True 7074237752028440 (- 55))) (Sin bench_lib (Finite True 7074237752028440 (- 55)))"
  "near_unit (Cos bench_lib (Finite True 7074237752028440 (- 56))) (Sin bench_lib (Finite True 7074237752028440 (- 56)))"
  "near_unit (Cos bench_lib (Finite True 7074237752028440 (- 57))) (Sin bench_lib (Finite True 7074237752028440 (- 57)))"
  "near_unit (Cos bench_lib (Finite True 7074237752028440 (- 58))) (Sin bench_lib (Finite True 7074237752028440 (- 58)))"
  "near_unit (Cos bench_lib (Finite True 7074237752028440 (- 59))) (Sin bench_lib (Finite True 7074237752028440 (- 59)))"
  "near_unit (Cos bench_lib (Finite True 7074237752028440 (- 60))) (Sin bench_lib (Finite True 7074237752028440 (- 60)))"
  "near_unit (Cos bench_lib (Finite True 7074237752028440 (- 61))) (Sin bench_lib (Finite True 7074237752028440 (- 61)))"
  "near_unit (Cos bench_lib (Finite True 7074237752028440 (- 62))) (Sin bench_lib (Finite True 7074237752028440 (- 62)))"
  "near_unit (Cos bench_lib (Finite True 7074237752028440 (- 63))) (Sin bench_lib (Finite True 7074237752028440 (- 63)))"
  "near_unit (Cos bench_lib (Finite True 7074237752028440 (- 64))) (Sin bench_lib (Finite True 7074237752028440 (- 64)))"
  "near_unit (Cos bench_lib (Finite True 7074237752028440 (- 65))) (Sin bench_lib (Finite True 7074237752028440 (- 65)))"
  "near_unit (Cos bench_lib (Finite True 7074237752028440 (- 66))) (Sin bench_lib (Finite True 7074237752028440 (- 66)))"
  "near_unit (Cos bench_lib (Finite True 7074237752028440 (- 67))) (Sin bench_lib (Finite True 7074237752028440 (- 67)))"
  "near_unit (Cos bench_lib (Finite True 7074237752028440 (- 68))) (Sin bench_lib (Finite True 7074237752028440 (- 68)))"
  "near_unit (Cos bench_lib (Finite True 7074237752028440 (- 69))) (Sin bench_lib (Finite True 7074237752028440 (- 69)))"
  "near_unit (Cos bench_lib (Finite True 7074237752028440 (- 70))) (Sin bench_lib (Finite True 7074237752028440 (- 70)))"
  "near_unit (Cos bench_lib (Finite True 7074237752028440 (- 71))) (Sin bench_lib (Finite True 7074237752028440 (- 71)))"
  "near_unit (Cos bench_lib (Finite True 7074237752028440 (- 72))) (Sin bench_lib (Finite True 7074237752028440 (- 72)))"
  "near_unit (Cos bench_lib (Finite True 7074237752028440 (- 73))) (Sin bench_lib (Finite True 7074237752028440 (- 73)))"
  "near_unit (Cos bench_lib (Finite True 7074237752028440 (- 74))) (Sin bench_lib (Finite True 7074237752028440 (- 74)))"
  by (simp_all add: bench_lib_def bench_cos_def bench_sin_def near_unit_def is_finite_def wf_float64_def
      valof_def power2_eq_square)

section \<open>Complex arithmetic\<close>

text \<open>
  C3: for all Complex values and every scalar, \<open>Add\<close>, \<open>Sub\<close>, \<open>Mul\<close> and \<open>MulScalar\<close>
  return the componentwise results of complex algebra, each component built from the
  float64 sum, difference and product of the operands' components: real parts added and
  imaginary parts added; real parts subtracted and imaginary parts subtracted; the real
  part of a product is the product of the real parts minus the product of the imaginary
  parts, its imaginary part the sum of the two cross products; scaling multiplies both
  parts by the scalar.
\<close>

theorem complex_ops_componentwise:
  "Add a b = \<lparr>Real = fadd (Real a) (Real b), Imag = fadd (Imag a) (Imag b)\<rparr> \<and>
   Sub a b = \<lparr>Real = fsub (Real a) (Real b), Imag = fsub (Imag a) (Imag b)\<rparr> \<and>
   Mul a b =
     \<lparr>Real = fsub (fmul (Real a) (Real b)) (fmul (Imag a) (Imag b)),
      Imag = fadd (fmul (Real a) (Imag b)) (fmul (Imag a) (Real b))\<rparr> \<and>
   MulScalar a s = \<lparr>Real = fmul (Real a) s, Imag = fmul (Imag a) s\<rparr>"
  by (simp add: Add_def Sub_def Mul_def MulScalar_def)

section \<open>Normalisation\<close>



section \<open>The combine loop\<close>

text \<open>
  C6: for an input \<open>arr\<close> of even length \<open>n > 0\<close>, the first loop of \<open>fft\<close> builds the
  order-preserving subsequences \<open>evens arr\<close> (positions 0, 2, 4, ...) and \<open>odds arr\<close>
  (positions 1, 3, 5, ...), both are transformed by \<open>fft\<close> first (to \<open>b0\<close> and \<open>b1\<close>), and,
  with the twiddle base \<open>wn = (Cos (-2\<pi>/n), Sin (-2\<pi>/n))\<close>: the combine loop starts with
  \<open>w = (1, 0)\<close> and after \<open>k\<close> iterations holds \<open>w = wn^k\<close> (\<open>k\<close> multiplications by
  \<open>wn\<close>), for every \<open>k \<le> n/2\<close>; the result of \<open>fft\<close> has at index \<open>i\<close> the value
  \<open>Add (b0[i]) (Mul (wn^i) (b1[i]))\<close> and at index \<open>i + n/2\<close> the value
  \<open>Sub (b0[i]) (Mul (wn^i) (b1[i]))\<close>, for every \<open>i < n/2\<close>.
\<close>

theorem combine_loop_butterflies:
  assumes "even (length arr)" "arr \<noteq> []"
  shows "\<exists>b0 b1 out.
           split_loop arr [0..<length arr div 2] ([], []) = Inr (evens arr, odds arr) \<and>
           length (evens arr) = length arr div 2 \<and> length (odds arr) = length arr div 2 \<and>
           (\<forall>i<length arr div 2. evens arr ! i = arr ! (2 * i) \<and> odds arr ! i = arr ! (2 * i + 1)) \<and>
           fft L (evens arr) = Some (Inr b0) \<and> fft L (odds arr) = Some (Inr b1) \<and>
           fft L arr = Some (Inr out) \<and> length out = length arr \<and>
           twiddle L (length arr) =
             \<lparr>Real = Cos L (fdiv neg_two_pi (float64_of_nat (length arr))),
              Imag = Sin L (fdiv neg_two_pi (float64_of_nat (length arr)))\<rparr> \<and>
           (\<forall>k\<le>length arr div 2. \<exists>res.
              combine_loop (twiddle L (length arr)) (length arr) b0 b1 [0..<k]
                (arr, \<lparr>Real = f_one, Imag = f_zero\<rparr>) =
              Inr (res, twiddle_power (twiddle L (length arr)) k)) \<and>
           (\<forall>i<length arr div 2.
              out ! i = Add (b0 ! i) (Mul (twiddle_power (twiddle L (length arr)) i) (b1 ! i)) \<and>
              out ! (i + length arr div 2) =
                Sub (b0 ! i) (Mul (twiddle_power (twiddle L (length arr)) i) (b1 ! i)))"
proof -
  let ?n = "length arr" and ?wn = "twiddle L (length arr)"
  from assms have "?n \<noteq> 1" by auto
  from fft_step [OF assms(2) this, of L] obtain b0 b1 out where
    b: "fft L (evens arr) = Some (Inr b0)" "length b0 = ?n div 2"
       "fft L (odds arr) = Some (Inr b1)" "length b1 = ?n div 2" and
    o: "combine L arr b0 b1 = Inr out" "fft L arr = Some (Inr out)" "length out = ?n"
    by blast
  have pre: "\<exists>res. combine_loop ?wn ?n b0 b1 [0..<k] (arr, twiddle_power ?wn 0) =
               Inr (res, twiddle_power ?wn k) \<and> length res = ?n \<and>
             (\<forall>i<k. res ! i = Add (b0 ! i) (Mul (twiddle_power ?wn i) (b1 ! i)) \<and>
                    res ! (i + ?n div 2) = Sub (b0 ! i) (Mul (twiddle_power ?wn i) (b1 ! i))) \<and>
             (\<forall>j<?n. (k \<le> j \<and> j < ?n div 2) \<or> ?n div 2 + k \<le> j \<longrightarrow> res ! j = arr ! j)"
    if "k \<le> ?n div 2" for k
    using combine_loop_prefix [OF b(2) b(4) refl that] .
  have w: "\<forall>k\<le>?n div 2. \<exists>res.
      combine_loop ?wn ?n b0 b1 [0..<k] (arr, \<lparr>Real = f_one, Imag = f_zero\<rparr>) =
      Inr (res, twiddle_power ?wn k)"
    using pre by fastforce
  obtain res where r:
    "combine_loop ?wn ?n b0 b1 [0..<?n div 2] (arr, twiddle_power ?wn 0) =
       Inr (res, twiddle_power ?wn (?n div 2))"
    "\<forall>i<?n div 2. res ! i = Add (b0 ! i) (Mul (twiddle_power ?wn i) (b1 ! i)) \<and>
        res ! (i + ?n div 2) = Sub (b0 ! i) (Mul (twiddle_power ?wn i) (b1 ! i))"
    using pre [OF order_refl] by blast
  from r(1) o(1) have "out = res" by (simp add: combine_def)
  with r(2) have v: "\<forall>i<?n div 2.
      out ! i = Add (b0 ! i) (Mul (twiddle_power ?wn i) (b1 ! i)) \<and>
      out ! (i + ?n div 2) = Sub (b0 ! i) (Mul (twiddle_power ?wn i) (b1 ! i))"
    by simp
  have e: "\<forall>i<?n div 2. evens arr ! i = arr ! (2 * i) \<and> odds arr ! i = arr ! (2 * i + 1)"
    by (simp add: nth_evens nth_odds)
  from split_loop_eq [of arr] length_evens [of arr] length_odds [of arr] e b(1,3) o(2,3)
    twiddle_eq [of L ?n] w v
  show ?thesis by blast
qed

theorem combine_loop_butterflies_witness:
  "\<exists>b0 b1 out.
     fft example_lib [\<lparr>Real = f_one, Imag = f_zero\<rparr>] = Some (Inr b0) \<and>
     fft example_lib [\<lparr>Real = f_zero, Imag = f_one\<rparr>] = Some (Inr b1) \<and>
     fft example_lib [\<lparr>Real = f_one, Imag = f_zero\<rparr>, \<lparr>Real = f_zero, Imag = f_one\<rparr>] =
       Some (Inr out) \<and>
     out ! 0 = Add (b0 ! 0) (Mul \<lparr>Real = f_one, Imag = f_zero\<rparr> (b1 ! 0)) \<and>
     out ! 1 = Sub (b0 ! 0) (Mul \<lparr>Real = f_one, Imag = f_zero\<rparr> (b1 ! 0))"
proof -
  let ?arr = "[\<lparr>Real = f_one, Imag = f_zero\<rparr>, \<lparr>Real = f_zero, Imag = f_one\<rparr>]"
  have h: "even (length ?arr)" "?arr \<noteq> []" by simp_all
  have ev: "evens ?arr = [\<lparr>Real = f_one, Imag = f_zero\<rparr>]"
    and od: "odds ?arr = [\<lparr>Real = f_zero, Imag = f_one\<rparr>]"
    by (simp_all add: evens_def odds_def)
  from combine_loop_butterflies [OF h, of example_lib] show ?thesis
    unfolding ev od by (auto simp: numeral_2_eq_2)
qed

section \<open>Small cases\<close>

text \<open>
  C5: for every single-element sequence of float64 values, \<open>FFT\<close> returns the sequence
  unchanged: \<open>fft\<close> returns at once, and the factor \<open>1 / Sqrt (float64 1)\<close> is \<open>1\<close>, which
  every value (finite, infinite or NaN) is unchanged by.
\<close>

theorem FFT_single_unchanged:
  assumes "wf_float64 (Real x)" "wf_float64 (Imag x)"
  shows "FFT L [x] = Some (Inr [x])"
proof -
  have "FFT L [x] = Some (Inr (map (\<lambda>c. MulScalar c (norm_factor (length [x]))) [x]))"
    by (rule FFT_of_fft) (simp_all add: fft_single)
  then show ?thesis using assms by (simp add: norm_factor_1 MulScalar_one)
qed

theorem FFT_single_unchanged_witness:
  "FFT example_lib [\<lparr>Real = Finite True 6755399441055744 (- 52), Imag = Infinity False\<rparr>] =
     Some (Inr [\<lparr>Real = Finite True 6755399441055744 (- 52), Imag = Infinity False\<rparr>])"
  using FFT_single_unchanged
    [of "\<lparr>Real = Finite True 6755399441055744 (- 52), Imag = Infinity False\<rparr>" example_lib]
  by (simp add: wf_float64_def)

text \<open>
  C2: with a library whose cosine and sine of \<open>-2\<pi>/4\<close> are finite float64 values, \<open>FFT\<close>
  on the unit impulse \<open>[(1,0), (0,0), (0,0), (0,0)]\<close> returns four elements \<open>(0.5, 0)\<close>.
\<close>

theorem FFT_unit_impulse:
  assumes "is_finite (Cos L (fdiv neg_two_pi (float64_of_nat 4)))"
    "wf_float64 (Cos L (fdiv neg_two_pi (float64_of_nat 4)))"
    "is_finite (Sin L (fdiv neg_two_pi (float64_of_nat 4)))"
    "wf_float64 (Sin L (fdiv neg_two_pi (float64_of_nat 4)))"
  shows "FFT L [\<lparr>Real = f_one, Imag = f_zero\<rparr>, \<lparr>Real = f_zero, Imag = f_zero\<rparr>,
                \<lparr>Real = f_zero, Imag = f_zero\<rparr>, \<lparr>Real = f_zero, Imag = f_zero\<rparr>] =
         Some (Inr [\<lparr>Real = f_half, Imag = f_zero\<rparr>, \<lparr>Real = f_half, Imag = f_zero\<rparr>,
                    \<lparr>Real = f_half, Imag = f_zero\<rparr>, \<lparr>Real = f_half, Imag = f_zero\<rparr>])"
proof -
  let ?one = "\<lparr>Real = f_one, Imag = f_zero\<rparr>" and ?z = "\<lparr>Real = f_zero, Imag = f_zero\<rparr>"
  let ?w = "Mul ?one (twiddle L 4)"
  have e: "fft L [?one, ?z] = Some (Inr [?one, ?one])"
    by (simp add: fft_pair one_times_zero one_pm_zero)
  have o: "fft L [?z, ?z] = Some (Inr [?z, ?z])"
    by (simp add: fft_pair one_times_zero zero_pm_zero)
  have "is_finite (Real ?w) \<and> is_finite (Imag ?w)"
    unfolding twiddle_eq using assms by (intro Mul_one_finite)
  then obtain sr mr er si mi ei where "Real ?w = Finite sr mr er" "Imag ?w = Finite si mi ei"
    using is_finiteE by blast
  then have "?w = \<lparr>Real = Finite sr mr er, Imag = Finite si mi ei\<rparr>"
    by (cases ?w) simp
  then obtain s1 s2 where q: "Mul ?w ?z = \<lparr>Real = Finite s1 0 (- 1074), Imag = Finite s2 0 (- 1074)\<rparr>"
    using Mul_finite_zero [of sr mr er si mi ei] by auto
  have "fft L [?one, ?z, ?z, ?z] = Some (Inr [?one, ?one, ?one, ?one])"
    by (simp add: fft_quad [OF e o] one_times_zero one_pm_zero q Add_one_zero Sub_one_zero)
  then have "FFT L [?one, ?z, ?z, ?z] =
      Some (Inr (map (\<lambda>c. MulScalar c (norm_factor (length [?one, ?z, ?z, ?z])))
        [?one, ?one, ?one, ?one]))"
    by (rule FFT_of_fft) simp
  moreover have "length [?one, ?z, ?z, ?z] = 4" by simp
  then have "norm_factor (length [?one, ?z, ?z, ?z]) = f_half"
    by (simp only: norm_factor_4)
  ultimately show ?thesis by (simp add: one_scaled_half)
qed

theorem FFT_unit_impulse_witness:
  "FFT example_lib [\<lparr>Real = f_one, Imag = f_zero\<rparr>, \<lparr>Real = f_zero, Imag = f_zero\<rparr>,
                \<lparr>Real = f_zero, Imag = f_zero\<rparr>, \<lparr>Real = f_zero, Imag = f_zero\<rparr>] =
         Some (Inr [\<lparr>Real = f_half, Imag = f_zero\<rparr>, \<lparr>Real = f_half, Imag = f_zero\<rparr>,
                    \<lparr>Real = f_half, Imag = f_zero\<rparr>, \<lparr>Real = f_half, Imag = f_zero\<rparr>])"
proof -
  have a: "fdiv neg_two_pi (float64_of_nat 4) = Finite True 7074237752028440 (- 52)"
    by (simp add: float_eval)
  show ?thesis
    by (rule FFT_unit_impulse) (simp_all add: a example_lib_def is_finite_def wf_float64_def)
qed

section \<open>Finite input, infinite output\<close>

text \<open>
  C8, as stated, fails: on the two-element input \<open>[(M, 0), (M, 0)]\<close>, \<open>M\<close> the largest
  finite float64 (1.7976931348623157e308), every input component is finite, the sum
  \<open>M + M\<close> of the combine step overflows, and \<open>FFT\<close> returns \<open>[(+Inf, 0), (0, 0)]\<close>.
\<close>

theorem FFT_overflow:
  "is_finite (Finite False 9007199254740991 971) \<and> is_finite f_zero \<and>
   FFT example_lib
     [\<lparr>Real = Finite False 9007199254740991 971, Imag = f_zero\<rparr>,
      \<lparr>Real = Finite False 9007199254740991 971, Imag = f_zero\<rparr>] =
     Some (Inr [\<lparr>Real = Infinity False, Imag = f_zero\<rparr>, \<lparr>Real = f_zero, Imag = f_zero\<rparr>]) \<and>
   \<not> is_finite (Infinity False)"
proof -
  let ?m = "\<lparr>Real = Finite False 9007199254740991 971, Imag = f_zero\<rparr>"
  have "fft example_lib [?m, ?m] =
      Some (Inr [\<lparr>Real = Infinity False, Imag = f_zero\<rparr>, \<lparr>Real = f_zero, Imag = f_zero\<rparr>])"
    by (simp add: fft_pair one_times_max max_plus_max max_minus_max)
  then have "FFT example_lib [?m, ?m] =
      Some (Inr (map (\<lambda>c. MulScalar c (norm_factor (length [?m, ?m])))
        [\<lparr>Real = Infinity False, Imag = f_zero\<rparr>, \<lparr>Real = f_zero, Imag = f_zero\<rparr>]))"
    by (rule FFT_of_fft) simp
  moreover have "norm_factor (length [?m, ?m]) = Finite False 6369051672525772 (- 53)"
    using norm_factor_2 by (simp add: numeral_2_eq_2)
  ultimately have "FFT example_lib [?m, ?m] =
      Some (Inr [\<lparr>Real = Infinity False, Imag = f_zero\<rparr>, \<lparr>Real = f_zero, Imag = f_zero\<rparr>])"
    by (simp add: scaled_overflow)
  moreover have "is_finite (Finite False 9007199254740991 971)" "is_finite f_zero"
    "\<not> is_finite (Infinity False)"
    by (simp_all add: is_finite_def f_zero_def)
  ultimately show ?thesis by blast
qed

text \<open>
  C8, as amended: for every non-empty input of \<open>n \<le> 2^48\<close> elements whose components are
  finite float64 values of magnitude below \<open>2^K\<close>, with \<open>K \<ge> 0\<close> and
  \<open>K + growth n \<le> 1021\<close>, where \<open>growth n\<close> is six times the number of halvings that take
  \<open>n\<close> to \<open>1\<close> (\<open>growth (2^k) = 6 * k\<close>: 132 for the \<open>2^22\<close> elements of the largest
  default size of the benchmark, so that any \<open>K \<le> 889\<close> will do there), \<open>FFT\<close> returns
  \<open>n\<close> elements whose components are all finite, provided the library's cosine \<open>c\<close> and
  sine \<open>s\<close> of each angle \<open>-2\<pi>/m\<close> the transform asks for (\<open>m = n, n div 2, n div 4, ...\<close>,
  down to \<open>2\<close>) are finite float64 values with \<open>c^2 + s^2 \<le> 1 + 2^-49\<close>. Under this bound
  no sum or product of the transform can overflow: the twiddle powers \<open>wn^i\<close>, although
  each is rounded, remain below \<open>2\<close> in magnitude through all \<open>n/2\<close> multiplications of the
  combine loop.
\<close>

theorem FFT_finite_bounded:
  assumes "arr \<noteq> []" and "length arr \<le> 2 ^ 48"
    and "\<forall>c\<in>set arr. magnitude_below K (Real c) \<and> magnitude_below K (Imag c)"
    and "0 \<le> K" and "K + int (growth (length arr)) \<le> 1021"
    and "\<forall>j. 2 \<le> length arr div 2 ^ j \<longrightarrow>
           near_unit (Cos L (fdiv neg_two_pi (float64_of_nat (length arr div 2 ^ j))))
             (Sin L (fdiv neg_two_pi (float64_of_nat (length arr div 2 ^ j))))"
  shows "\<exists>out. FFT L arr = Some (Inr out) \<and> length out = length arr \<and>
           (\<forall>c\<in>set out. is_finite (Real c) \<and> is_finite (Imag c))"
proof -
  define K' where "K' = K + int (growth (length arr))"
  have lib: "\<forall>j. 2 \<le> length arr div 2 ^ j \<longrightarrow>
      components_below 1 (twiddle L (length arr div 2 ^ j)) \<and>
      cmod (cval (twiddle L (length arr div 2 ^ j))) \<le> 1 + 8 / 2 ^ 53"
    using assms(6) near_unit_twiddle by (simp add: twiddle_eq)
  have inp: "\<forall>c\<in>set arr. components_below K c"
    using assms(3) by (simp add: components_below_def)
  from fft_magnitude [OF assms(1,2) lib inp assms(4,5)] obtain out where
    o: "fft L arr = Some (Inr out)" "length out = length arr"
       "\<forall>c\<in>set out. components_below K' c"
    by (auto simp: K'_def)
  have f: "magnitude_below 2 (norm_factor (length arr))"
    using assms(1) by (intro norm_factor_magnitude) simp
  have K': "0 \<le> K' + 2" "K' + 2 \<le> 1023" using assms(4,5) by (simp_all add: K'_def)
  have "is_finite (fmul x (norm_factor (length arr)))" if "magnitude_below K' x" for x
    using fmul_magnitude [OF that f K'] by (rule magnitude_below_finite)
  then have "\<forall>c\<in>set out. is_finite (Real (MulScalar c (norm_factor (length arr)))) \<and>
      is_finite (Imag (MulScalar c (norm_factor (length arr))))"
    using o(3) by (simp add: MulScalar_def components_below_def)
  then show ?thesis using FFT_of_fft [OF o(1,2)] o(2) by simp
qed

theorem FFT_finite_bounded_witness:
  "(\<exists>out. FFT example_lib
           [\<lparr>Real = f_one, Imag = f_zero\<rparr>, \<lparr>Real = f_zero, Imag = f_one\<rparr>,
            \<lparr>Real = f_one, Imag = f_one\<rparr>, \<lparr>Real = f_zero, Imag = f_zero\<rparr>] =
           Some (Inr out) \<and> length out = 4 \<and>
         (\<forall>c\<in>set out. is_finite (Real c) \<and> is_finite (Imag c))) \<and>
   (\<exists>out. FFT bench_lib (replicate 16777216 \<lparr>Real = f_one, Imag = f_half\<rparr>) =
           Some (Inr out) \<and> length out = 16777216 \<and>
         (\<forall>c\<in>set out. is_finite (Real c) \<and> is_finite (Imag c)))"
proof -
  let ?arr = "[\<lparr>Real = f_one, Imag = f_zero\<rparr>, \<lparr>Real = f_zero, Imag = f_one\<rparr>,
               \<lparr>Real = f_one, Imag = f_one\<rparr>, \<lparr>Real = f_zero, Imag = f_zero\<rparr>]"
  have b: "bitlen 4503599627370496 = 53"
    using bitlen_eq [of 52 4503599627370496] by simp
  have one: "magnitude_below 1 f_one" and zero: "magnitude_below 1 f_zero"
    by (simp_all add: magnitude_below_def wf_float64_def f_one_def f_zero_def b)
  have l4: "length ?arr = 4" by simp
  have lib4: "near_unit (Cos example_lib (fdiv neg_two_pi (float64_of_nat 4)))
      (Sin example_lib (fdiv neg_two_pi (float64_of_nat 4)))"
    by (simp add: angle_4 example_lib_def near_unit_def is_finite_def wf_float64_def valof_def
        power2_eq_square)
  have lib2: "near_unit (Cos example_lib (fdiv neg_two_pi (float64_of_nat 2)))
      (Sin example_lib (fdiv neg_two_pi (float64_of_nat 2)))"
    by (simp add: angle_2 example_lib_def near_unit_def is_finite_def wf_float64_def valof_def
        power2_eq_square)
  have g4: "growth 4 = 12" by (simp add: growth.simps)
  have a1: "?arr \<noteq> []" by simp
  have a2: "length ?arr \<le> 2 ^ 48" by simp
  have a3: "\<forall>c\<in>set ?arr. magnitude_below 1 (Real c) \<and> magnitude_below 1 (Imag c)"
    using one zero by simp
  have a4: "(0::int) \<le> 1" by simp
  have a5: "1 + int (growth (length ?arr)) \<le> 1021" unfolding l4 by (simp add: g4)
  have a6: "\<forall>j. 2 \<le> length ?arr div 2 ^ j \<longrightarrow>
      near_unit (Cos example_lib (fdiv neg_two_pi (float64_of_nat (length ?arr div 2 ^ j))))
        (Sin example_lib (fdiv neg_two_pi (float64_of_nat (length ?arr div 2 ^ j))))"
    unfolding l4
  proof (intro allI impI)
    fix j :: nat
    assume a: "2 \<le> (4::nat) div 2 ^ j"
    have "j < 2"
    proof (rule ccontr)
      assume "\<not> j < 2"
      then have "(2::nat) ^ 2 \<le> 2 ^ j" by (intro power_increasing) simp_all
      then have "(4::nat) div 2 ^ j \<le> 1"
        by (simp add: div_le_mono2 div_le_dividend le_trans [OF div_le_mono2 [of 4 "2 ^ j" 4]])
      with a show False by simp
    qed
    then consider "j = 0" | "j = 1" by linarith
    then show "near_unit (Cos example_lib (fdiv neg_two_pi (float64_of_nat (4 div 2 ^ j))))
        (Sin example_lib (fdiv neg_two_pi (float64_of_nat (4 div 2 ^ j))))"
    proof cases
      case 1
      with lib4 show ?thesis by simp
    next
      case 2
      with lib2 show ?thesis by simp
    qed
  qed
  let ?big = "replicate 16777216 \<lparr>Real = f_one, Imag = f_half\<rparr>"
  have half: "magnitude_below 1 f_half"
    by (simp add: magnitude_below_def wf_float64_def f_half_def b)
  have lb: "length ?big = 16777216" by simp
  have gb: "growth 16777216 = 144" by (simp add: growth.simps)
  have b1: "?big \<noteq> []" by simp
  have b2: "length ?big \<le> 2 ^ 48" by simp
  have b3: "\<forall>c\<in>set ?big. magnitude_below 1 (Real c) \<and> magnitude_below 1 (Imag c)"
    using one half by simp
  have b4: "(0::int) \<le> 1" by simp
  have b5: "1 + int (growth (length ?big)) \<le> 1021" unfolding lb by (simp add: gb)
  have b6: "\<forall>j. 2 \<le> length ?big div 2 ^ j \<longrightarrow>
      near_unit (Cos bench_lib (fdiv neg_two_pi (float64_of_nat (length ?big div 2 ^ j))))
        (Sin bench_lib (fdiv neg_two_pi (float64_of_nat (length ?big div 2 ^ j))))"
    unfolding lb
  proof (intro allI impI)
    fix j :: nat
    assume a: "2 \<le> (16777216::nat) div 2 ^ j"
    have "j < 24"
    proof (rule ccontr)
      assume "\<not> j < 24"
      then have "(2::nat) ^ 24 \<le> 2 ^ j" by (intro power_increasing) simp_all
      then have "(16777216::nat) div 2 ^ j \<le> 16777216 div 2 ^ 24" by (intro div_le_mono2) simp_all
      with a show False by simp
    qed
    then have "j = 0 \<or> j = 1 \<or> j = 2 \<or> j = 3 \<or> j = 4 \<or> j = 5 \<or> j = 6 \<or> j = 7 \<or>
        j = 8 \<or> j = 9 \<or> j = 10 \<or> j = 11 \<or> j = 12 \<or> j = 13 \<or> j = 14 \<or> j = 15 \<or>
        j = 16 \<or> j = 17 \<or> j = 18 \<or> j = 19 \<or> j = 20 \<or> j = 21 \<or> j = 22 \<or> j = 23"
      by presburger
    then show "near_unit (Cos bench_lib (fdiv neg_two_pi (float64_of_nat (16777216 div 2 ^ j))))
        (Sin bench_lib (fdiv neg_two_pi (float64_of_nat (16777216 div 2 ^ j))))"
      by (elim disjE) (simp_all add: bench_angles bench_near_unit)
  qed
  from FFT_finite_bounded [OF a1 a2 a3 a4 a5 a6] FFT_finite_bounded [OF b1 b2 b3 b4 b5 b6]
  show ?thesis by (simp only: l4 lb)
qed

section \<open>Termination and the length of the result\<close>

text \<open>
  C4, as amended: for every non-empty input sequence, whatever its length (a power of
  two or not), \<open>FFT\<close> returns normally, without a panic, a sequence of the same length;
  on the empty sequence it does not return, since \<open>fft\<close> calls itself on the empty halves
  of the empty sequence without end.
\<close>

theorem FFT_returns_iff_nonempty:
  "(arr \<noteq> [] \<longrightarrow> (\<exists>out. FFT L arr = Some (Inr out) \<and> length out = length arr)) \<and>
   (arr = [] \<longrightarrow> FFT L arr = None)"
  using FFT_returns [of arr L] by (auto simp: FFT_def fft_Nil)

theorem FFT_returns_iff_nonempty_witness:
  "(\<exists>out. FFT example_lib
           [\<lparr>Real = f_one, Imag = f_zero\<rparr>, \<lparr>Real = f_zero, Imag = f_one\<rparr>,
            \<lparr>Real = f_one, Imag = f_one\<rparr>] = Some (Inr out) \<and> length out = 3) \<and>
   (\<forall>r. FFT example_lib [] \<noteq> Some r)"
  using FFT_returns_iff_nonempty
    [of "[\<lparr>Real = f_one, Imag = f_zero\<rparr>, \<lparr>Real = f_zero, Imag = f_one\<rparr>,
            \<lparr>Real = f_one, Imag = f_one\<rparr>]" example_lib]
    FFT_returns_iff_nonempty [of "[]" example_lib]
  by auto

text \<open>
  C4, as stated, fails on the empty sequence: \<open>FFT\<close> has no result there.
\<close>

theorem FFT_empty_diverges: "FFT example_lib [] = None"
  by (simp add: FFT_def fft_Nil)

text \<open>
  C7: \<open>FFT\<close> never changes the length of the sequence: whenever it returns, the result
  has the length of the input, and it returns on every non-empty input.
\<close>

theorem FFT_preserves_length:
  "(\<forall>out. FFT L arr = Some (Inr out) \<longrightarrow> length out = length arr) \<and>
   (arr \<noteq> [] \<longrightarrow> (\<exists>out. FFT L arr = Some (Inr out)))"
proof (cases "arr = []")
  case True
  then show ?thesis by (simp add: FFT_Nil)
next
  case False
  then show ?thesis using FFT_returns [of arr L] by auto
qed

theorem FFT_preserves_length_witness:
  "\<exists>out. FFT example_lib [\<lparr>Real = f_one, Imag = f_zero\<rparr>, \<lparr>Real = f_zero, Imag = f_one\<rparr>] = Some (Inr out) \<and>
         length out = 2"
  using FFT_preserves_length
    [of example_lib "[\<lparr>Real = f_one, Imag = f_zero\<rparr>, \<lparr>Real = f_zero, Imag = f_one\<rparr>]"]
  by auto

section \<open>The command-line program\<close>

lemma shift_small: "0 \<le> k \<Longrightarrow> k \<le> 62 \<Longrightarrow> shift_size k = 2 ^ nat k"
proof -
  assume k: "0 \<le> k" "k \<le> 62"
  then have n: "nat k < 63" by simp
  have lt: "(2::int) ^ nat k < 2 ^ 63"
    using n by (intro power_strict_increasing) simp_all
  have "sint (word_of_int (2 ^ nat k) :: 64 word) = signed_take_bit 63 (2 ^ nat k :: int)"
    by (simp only: sint_sbintrunc') simp
  also have "\<dots> = 2 ^ nat k"
  proof (rule signed_take_bit_int_eq_self)
    have "- (2 ^ 63) \<le> (0::int)" by simp
    also have "(0::int) \<le> 2 ^ nat k" by simp
    finally show "- (2 ^ 63) \<le> (2::int) ^ nat k" .
    show "(2::int) ^ nat k < 2 ^ 63" by (rule lt)
  qed
  finally show ?thesis by (simp add: shift_size_def push_bit_of_1)
qed

lemma shift_big: "64 \<le> k \<Longrightarrow> shift_size k = 0"
proof -
  assume "64 \<le> k"
  then have "push_bit (nat k) (1 :: 64 word) = 0"
    by (intro push_bit_word_beyond) simp
  then show ?thesis by (simp only: shift_size_def) simp
qed

lemma generateInputs_length:
  "makeslice_cap_ok maxAlloc n \<Longrightarrow>
   \<exists>signals. generateInputs L maxAlloc n = Inr signals \<and> length signals = nat n"
  by (simp add: generateInputs_def)

lemma generateInputs_panics:
  "\<not> makeslice_cap_ok maxAlloc n \<Longrightarrow> generateInputs L maxAlloc n = Inl MakesliceCapOutOfRange"
  by (simp add: generateInputs_def)

text \<open>
  C9, as amended. With \<open>os.Args\<close> holding the program name only, \<open>main\<close> prints the
  usage line on the standard error stream and exits with status 1; when a size argument
  is there and \<open>Atoi\<close> rejects it or returns a negative number, it prints the line
  \<open>invalid <size>; must be a non-negative integer\<close> and exits with status 1. Otherwise
  it computes \<open>n = 1 << size\<close> on the 64-bit \<open>int\<close>. For \<open>size \<le> 62\<close> this is \<open>2^size\<close>:
  when the \<open>16 * n\<close> bytes of the input are within the runtime's largest allocation
  \<open>maxAlloc\<close> (and \<open>size \<le> 59\<close>, so that the byte count fits 64 bits), the \<open>n\<close> inputs are
  generated, the transform is invoked on them and returns (on a machine that has the
  memory: that is not modelled); when they are not,
  \<open>generateInputs\<close> panics (\<open>makeslice: cap out of range\<close>) and the transform is not
  invoked. For \<open>size = 63\<close>, \<open>n\<close> is \<open>-2^63\<close> and \<open>generateInputs\<close> panics as well; for
  \<open>size \<ge> 64\<close>, \<open>n\<close> is \<open>0\<close>, and the transform is invoked on the empty sequence, where
  it does not return.
\<close>

theorem main_outcomes:
  "(length Args = 1 \<longrightarrow>
      main L maxAlloc Args = Some (Exit 1 (''usage: '' @ Args ! 0 @ '' <size>''))) \<and>
   (2 \<le> length Args \<and> (Atoi (Args ! 1) = None \<or> (\<exists>k<0. Atoi (Args ! 1) = Some k)) \<longrightarrow>
      main L maxAlloc Args = Some (Exit 1 ''invalid <size>; must be a non-negative integer'')) \<and>
   (\<forall>k. 2 \<le> length Args \<and> Atoi (Args ! 1) = Some k \<and> 0 \<le> k \<and> k \<le> 59 \<and>
        16 * 2 ^ nat k \<le> maxAlloc \<longrightarrow>
      shift_size k = 2 ^ nat k \<and>
      (\<exists>signals out. generateInputs L maxAlloc (shift_size k) = Inr signals \<and>
         length signals = 2 ^ nat k \<and> FFT L signals = Some (Inr out) \<and>
         main L maxAlloc Args = Some (Completed out))) \<and>
   (\<forall>k. 2 \<le> length Args \<and> Atoi (Args ! 1) = Some k \<and> 0 \<le> k \<and> k \<le> 62 \<and>
        (60 \<le> k \<or> maxAlloc < 16 * 2 ^ nat k) \<longrightarrow>
      shift_size k = 2 ^ nat k \<and>
      generateInputs L maxAlloc (shift_size k) = Inl MakesliceCapOutOfRange \<and>
      main L maxAlloc Args = Some (Panicked MakesliceCapOutOfRange)) \<and>
   (2 \<le> length Args \<and> Atoi (Args ! 1) = Some 63 \<longrightarrow>
      shift_size 63 = - (2 ^ 63) \<and>
      main L maxAlloc Args = Some (Panicked MakesliceCapOutOfRange)) \<and>
   (\<forall>k. 2 \<le> length Args \<and> Atoi (Args ! 1) = Some k \<and> 64 \<le> k \<longrightarrow>
      shift_size k = 0 \<and> generateInputs L maxAlloc (shift_size k) = Inr [] \<and>
      main L maxAlloc Args = None)"
proof (intro conjI allI impI)
  assume "length Args = 1"
  then show "main L maxAlloc Args = Some (Exit 1 (''usage: '' @ Args ! 0 @ '' <size>''))"
    by (cases Args) (simp_all add: main_def)
next
  assume "2 \<le> length Args \<and> (Atoi (Args ! 1) = None \<or> (\<exists>k<0. Atoi (Args ! 1) = Some k))"
  then show "main L maxAlloc Args =
      Some (Exit 1 ''invalid <size>; must be a non-negative integer'')"
    by (auto simp: main_def)
next
  fix k
  assume a: "2 \<le> length Args \<and> Atoi (Args ! 1) = Some k \<and> 0 \<le> k \<and> k \<le> 59 \<and>
    16 * 2 ^ nat k \<le> maxAlloc"
  then show s: "shift_size k = 2 ^ nat k" by (simp add: shift_small)
  from a have "0 \<le> k" "k \<le> 59" by simp_all
  then have "nat k < 60" by linarith
  then have "(2::int) ^ nat k < 2 ^ 60" by (intro power_strict_increasing) simp_all
  then have 1: "16 * (2::int) ^ nat k < 2 ^ 64" by simp
  from a have "int (16 * 2 ^ nat k) \<le> int maxAlloc" by (simp only: of_nat_le_iff)
  then have 2: "16 * (2::int) ^ nat k \<le> int maxAlloc" by simp
  have "makeslice_cap_ok maxAlloc (shift_size k)"
    using 1 2 by (simp add: makeslice_cap_ok_def s)
  from generateInputs_length [OF this, of L] obtain signals where
    g: "generateInputs L maxAlloc (shift_size k) = Inr signals" "length signals = 2 ^ nat k"
    using s by (auto simp: nat_power_eq)
  then have "signals \<noteq> []" by auto
  from FFT_returns [OF this, of L] obtain out where o: "FFT L signals = Some (Inr out)"
    by blast
  have "main L maxAlloc Args = Some (Completed out)"
    using a g o by (simp add: main_def)
  with g o show "\<exists>signals out. generateInputs L maxAlloc (shift_size k) = Inr signals \<and>
      length signals = 2 ^ nat k \<and> FFT L signals = Some (Inr out) \<and>
      main L maxAlloc Args = Some (Completed out)"
    by blast
next
  fix k
  assume a: "2 \<le> length Args \<and> Atoi (Args ! 1) = Some k \<and> 0 \<le> k \<and> k \<le> 62 \<and>
    (60 \<le> k \<or> maxAlloc < 16 * 2 ^ nat k)"
  then show s: "shift_size k = 2 ^ nat k" by (simp add: shift_small)
  have "\<not> makeslice_cap_ok maxAlloc (shift_size k)"
  proof (cases "60 \<le> k")
    case True
    then have "60 \<le> nat k" by simp
    then have "(2::int) ^ 60 \<le> 2 ^ nat k" by (intro power_increasing) simp_all
    then have "\<not> 16 * (2::int) ^ nat k < 2 ^ 64" by simp
    then show ?thesis by (simp add: makeslice_cap_ok_def s)
  next
    case False
    with a have "int maxAlloc < int (16 * 2 ^ nat k)" by (simp only: of_nat_less_iff) simp
    then have "\<not> 16 * (2::int) ^ nat k \<le> int maxAlloc" by simp
    then show ?thesis by (simp add: makeslice_cap_ok_def s)
  qed
  then show g: "generateInputs L maxAlloc (shift_size k) = Inl MakesliceCapOutOfRange"
    by (rule generateInputs_panics)
  show "main L maxAlloc Args = Some (Panicked MakesliceCapOutOfRange)"
    using a g by (simp add: main_def)
next
  assume a: "2 \<le> length Args \<and> Atoi (Args ! 1) = Some 63"
  show s: "shift_size 63 = - (2 ^ 63)" by (simp add: shift_size_def)
  show "main L maxAlloc Args = Some (Panicked MakesliceCapOutOfRange)"
    using a by (simp add: main_def s generateInputs_def makeslice_cap_ok_def)
next
  fix k
  assume a: "2 \<le> length Args \<and> Atoi (Args ! 1) = Some k \<and> 64 \<le> k"
  then show s: "shift_size k = 0" by (simp add: shift_big)
  show g: "generateInputs L maxAlloc (shift_size k) = Inr []"
    by (simp add: s generateInputs_def makeslice_cap_ok_def)
  show "main L maxAlloc Args = None" using a g by (simp add: main_def FFT_Nil)
qed

theorem main_outcomes_witness:
  "main example_lib maxAlloc_linux_amd64 [''fft''] = Some (Exit 1 ''usage: fft <size>'') \<and>
   main example_lib maxAlloc_linux_amd64 [''fft'', ''1x''] =
     Some (Exit 1 ''invalid <size>; must be a non-negative integer'') \<and>
   main example_lib maxAlloc_linux_amd64 [''fft'', ''-5''] =
     Some (Exit 1 ''invalid <size>; must be a non-negative integer'') \<and>
   (\<exists>signals out. generateInputs example_lib maxAlloc_linux_amd64 2 = Inr signals \<and>
      length signals = 2 \<and> FFT example_lib signals = Some (Inr out) \<and>
      main example_lib maxAlloc_linux_amd64 [''fft'', ''1''] = Some (Completed out)) \<and>
   main example_lib maxAlloc_linux_amd64 [''fft'', ''45''] =
     Some (Panicked MakesliceCapOutOfRange) \<and>
   main example_lib maxAlloc_linux_amd64 [''fft'', ''62''] =
     Some (Panicked MakesliceCapOutOfRange) \<and>
   main example_lib maxAlloc_linux_amd64 [''fft'', ''63''] =
     Some (Panicked MakesliceCapOutOfRange) \<and>
   main example_lib maxAlloc_linux_amd64 [''fft'', ''64''] = None"
proof -
  have a: "Atoi ''1x'' = None" "Atoi ''-5'' = Some (- 5)" "Atoi ''1'' = Some 1"
    "Atoi ''64'' = Some 64" "Atoi ''63'' = Some 63" "Atoi ''45'' = Some 45"
    "Atoi ''62'' = Some 62"
    by (simp_all add: Atoi_def digit_of_def)
  have s: "shift_size 1 = 2" by (simp add: shift_size_def)
  show ?thesis
    using main_outcomes [of "[''fft'']" example_lib maxAlloc_linux_amd64]
      main_outcomes [of "[''fft'', ''1x'']" example_lib maxAlloc_linux_amd64]
      main_outcomes [of "[''fft'', ''-5'']" example_lib maxAlloc_linux_amd64]
      main_outcomes [of "[''fft'', ''1'']" example_lib maxAlloc_linux_amd64]
      main_outcomes [of "[''fft'', ''45'']" example_lib maxAlloc_linux_amd64]
      main_outcomes [of "[''fft'', ''62'']" example_lib maxAlloc_linux_amd64]
      main_outcomes [of "[''fft'', ''63'']" example_lib maxAlloc_linux_amd64]
      main_outcomes [of "[''fft'', ''64'']" example_lib maxAlloc_linux_amd64]
    by (simp add: a s maxAlloc_linux_amd64_def)
qed

text \<open>
  C9, as stated, fails for the size arguments \<open>45\<close> and \<open>63\<close>, both non-negative
  integers. For \<open>45\<close>, on 64-bit Linux, \<open>n = 2^45\<close> is computed, but \<open>generateInputs\<close>
  panics, since the \<open>2^49\<close> bytes of the input are above the runtime's largest
  allocation: no input is generated and the transform is not invoked. For \<open>63\<close>, on every
  platform, \<open>n\<close> is not \<open>2^63\<close> but \<open>-2^63\<close>, and \<open>generateInputs\<close> panics again.
\<close>

theorem main_size_45_63:
  "Atoi ''45'' = Some 45 \<and> shift_size 45 = 35184372088832 \<and>
   generateInputs example_lib maxAlloc_linux_amd64 35184372088832 =
     Inl MakesliceCapOutOfRange \<and>
   main example_lib maxAlloc_linux_amd64 [''fft'', ''45''] =
     Some (Panicked MakesliceCapOutOfRange) \<and>
   Atoi ''63'' = Some 63 \<and> shift_size 63 = - 9223372036854775808 \<and>
   main example_lib maxAlloc_linux_amd64 [''fft'', ''63''] =
     Some (Panicked MakesliceCapOutOfRange)"
proof -
  have a: "Atoi ''63'' = Some 63" "Atoi ''45'' = Some 45" by (simp_all add: Atoi_def digit_of_def)
  have s: "shift_size 63 = - 9223372036854775808" "shift_size 45 = 35184372088832"
    by (simp_all add: shift_size_def)
  have c: "\<not> makeslice_cap_ok maxAlloc_linux_amd64 (- 9223372036854775808)"
    "\<not> makeslice_cap_ok maxAlloc_linux_amd64 35184372088832"
    by (simp_all add: makeslice_cap_ok_def maxAlloc_linux_amd64_def)
  have g: "generateInputs example_lib maxAlloc_linux_amd64 35184372088832 =
      Inl MakesliceCapOutOfRange"
    "generateInputs example_lib maxAlloc_linux_amd64 (- 9223372036854775808) =
       Inl MakesliceCapOutOfRange"
    using c by (simp_all add: generateInputs_panics)
  have "main example_lib maxAlloc_linux_amd64 [''fft'', ''63''] =
      Some (Panicked MakesliceCapOutOfRange)"
    "main example_lib maxAlloc_linux_amd64 [''fft'', ''45''] =
      Some (Panicked MakesliceCapOutOfRange)"
    by (simp_all add: main_def a s g)
  with a s g show ?thesis by simp
qed

section \<open>The Swift port and the Go port\<close>






















end
